theory Spec2Isabelle
  imports Complex_Main
begin

section \<open>Numbers, options and operators of the source language\<close>

text \<open>
  The treegraph series (TreegraphSeries.ts) computes with JavaScript numbers. They are
  modelled as reals: every number that is read is taken to be finite, and rounding error
  is not modelled. An optional property (one that may be \<open>undefined\<close>) is an
  \<open>option\<close>.
\<close>

text \<open>Modelled from the spec: \<open>pick\<close> of Core/Utilities is not in the source; options are
  resolved "field-by-field via first-non-absent-wins". \<open>pick(v, d)\<close> is the first argument
  that is not absent; here with a defined last argument.\<close>

definition pick :: "'a option \<Rightarrow> 'a \<Rightarrow> 'a" where
  "pick v d = (case v of Some a \<Rightarrow> a | None \<Rightarrow> d)"

text \<open>\<open>pick(v, w)\<close> where the last argument may be undefined as well.\<close>

definition pick2 :: "'a option \<Rightarrow> 'a option \<Rightarrow> 'a option" where
  "pick2 v w = (case v of Some a \<Rightarrow> Some a | None \<Rightarrow> w)"

text \<open>\<open>v || 0\<close> on an optional number: \<open>undefined\<close> and \<open>0\<close> both give \<open>0\<close>.\<close>

definition orZero :: "real option \<Rightarrow> real" where
  "orZero v = (case v of Some a \<Rightarrow> a | None \<Rightarrow> 0)"

text \<open>The comma operator \<open>(a, b)\<close> evaluates \<open>a\<close>, drops it and yields \<open>b\<close>.\<close>

definition comma :: "'a \<Rightarrow> 'b \<Rightarrow> 'b" where
  "comma a b = b"

text \<open>\<open>Math.round\<close> rounds to the nearest integer, a tie towards plus infinity.\<close>

definition Math_round :: "real \<Rightarrow> int" where
  "Math_round v = \<lfloor>v + 1 / 2\<rfloor>"

text \<open>The remainder operator \<open>%\<close> on integers: the result has the sign of the
  dividend.\<close>

definition js_rem :: "int \<Rightarrow> int \<Rightarrow> int" where
  "js_rem a b = sgn a * (\<bar>a\<bar> mod \<bar>b\<bar>)"

text \<open>A truthy string: defined and not empty (the test \<open>if (point.node.parent)\<close>).\<close>

definition truthy :: "string option \<Rightarrow> bool" where
  "truthy v = (case v of Some s \<Rightarrow> s \<noteq> [] | None \<Rightarrow> False)"

text \<open>The running extremes of \<open>getLayoutModifiers\<close> start at \<open>Infinity\<close> and
  \<open>-Infinity\<close>.\<close>

datatype extnum = NegInfinity | Num real | PosInfinity

fun le_ext :: "real \<Rightarrow> extnum \<Rightarrow> bool" where
  "le_ext v NegInfinity = False"
| "le_ext v (Num b) = (v \<le> b)"
| "le_ext v PosInfinity = True"

fun ge_ext :: "real \<Rightarrow> extnum \<Rightarrow> bool" where
  "ge_ext v NegInfinity = True"
| "ge_ext v (Num b) = (v \<ge> b)"
| "ge_ext v PosInfinity = False"

section \<open>Options, nodes and points\<close>

text \<open>
  \<open>MarkerOptions\<close> is the value of \<open>merge(this.options.marker, point.options.marker)\<close>:
  the marker options in force for one point. \<open>merge\<close> belongs to Core/Utilities; its
  result is an input of the model. The series defaults give \<open>radius: 10\<close>,
  \<open>lineWidth: 0\<close> and \<open>symbol: 'circle'\<close>, and the source reads \<open>radius\<close> as a number.
\<close>

record MarkerOptions =
  marker_symbol :: "string option"
  marker_radius :: real
  marker_width :: "real option"
  marker_height :: "real option"
  marker_lineWidth :: "real option"

text \<open>\<open>point.options.link\<close>, of which the series reads the link type.\<close>

record LinkOptions =
  link_type :: "string option"

record PointOptions =
  opt_marker :: MarkerOptions
  opt_link :: "LinkOptions option"

text \<open>The scalar fields of \<open>TreegraphNode.Node\<close> that the series reads and writes. The
  references \<open>node.children\<close> and \<open>node.point\<close> are the structure of \<open>TreeNode\<close>
  below.\<close>

record TreegraphNode =
  node_parent :: "string option"
  xPosition :: real
  yPosition :: real
  nodeSizeX :: real
  nodeSizeY :: real
  node_x :: "real option"
  node_y :: "real option"

datatype PathCommand =
    MoveTo real real
  | LineTo real real
  | CurveTo real real real real real real

type_synonym SVGPath = "PathCommand list"

record ShapeArgs =
  sa_d :: SVGPath
  sa_x :: "real option"
  sa_y :: "real option"
  sa_width :: "real option"
  sa_height :: "real option"

text \<open>A link object lives in the store of links; a point refers to its link by
  reference.\<close>

type_synonym ref = nat

record TreegraphPoint =
  point_id :: string
  point_node :: TreegraphNode
  point_options :: PointOptions
  collapsed :: bool
  hidden :: bool
  visible :: bool
  linkToParent :: "ref option"
  shapeType :: "string option"
  plotX :: "real option"
  plotY :: "real option"
  shapeArgs :: "ShapeArgs option"
  tooltipPos :: "(real \<times> real) option"

record Chart =
  plotSizeX :: real
  plotSizeY :: real
  inverted :: bool

section \<open>The coordinate transform: getLayoutModifiers\<close>

record LayoutModifiers =
  lm_ax :: real
  lm_bx :: real
  lm_ay :: real
  lm_by :: real

record Extremes =
  minX :: extnum
  maxX :: extnum
  minY :: extnum
  maxY :: extnum
  maxXSize :: real
  minXSize :: real
  maxYSize :: real
  minYSize :: real

definition initialExtremes :: Extremes where
  "initialExtremes =
     \<lparr>minX = PosInfinity, maxX = NegInfinity, minY = PosInfinity, maxY = NegInfinity,
      maxXSize = 0, minXSize = 0, maxYSize = 0, minYSize = 0\<rparr>"

text \<open>The two sizes the callback of \<open>this.points.forEach\<close> derives from the marker
  options. For a circle the source writes \<open>(pick(markerOptions.radius), 0) * 2\<close> for
  \<open>nodeSizeY\<close>: a comma expression, whose value is its second operand.\<close>

definition markerSizeY :: "MarkerOptions \<Rightarrow> real" where
  "markerSizeY m =
     (if marker_symbol m = Some ''circle''
      then comma (marker_radius m) 0 * 2
      else pick (marker_height m) (marker_radius m * 2))"

definition markerSizeX :: "MarkerOptions \<Rightarrow> real" where
  "markerSizeX m =
     (if marker_symbol m = Some ''circle''
      then marker_radius m * 2
      else pick (marker_width m) (marker_radius m * 2))"

text \<open>One call of the callback: it stores the sizes in the node and updates the
  running extremes, each of the four tests in the source's order.\<close>

definition scanPoint :: "Extremes \<Rightarrow> TreegraphPoint \<Rightarrow> Extremes \<times> TreegraphPoint" where
  "scanPoint e point =
     (let markerOptions = opt_marker (point_options point);
          sizeY = markerSizeY markerOptions;
          sizeX = markerSizeX markerOptions;
          node = (point_node point)\<lparr>nodeSizeX := sizeX, nodeSizeY := sizeY\<rparr>;
          lineWidth = orZero (marker_lineWidth markerOptions);
          e1 = (if le_ext (xPosition node) (minX e)
                then e\<lparr>minX := Num (xPosition node),
                       minXSize := max (sizeX + lineWidth) (minXSize e)\<rparr>
                else e);
          e2 = (if ge_ext (xPosition node) (maxX e1)
                then e1\<lparr>maxX := Num (xPosition node),
                        maxXSize := max (sizeX + lineWidth) (maxXSize e1)\<rparr>
                else e1);
          e3 = (if le_ext (yPosition node) (minY e2)
                then e2\<lparr>minY := Num (yPosition node),
                        minYSize := max (sizeY + lineWidth) (minYSize e2)\<rparr>
                else e2);
          e4 = (if ge_ext (yPosition node) (maxY e3)
                then e3\<lparr>maxY := Num (yPosition node),
                        maxYSize := max (sizeY + lineWidth) (maxYSize e3)\<rparr>
                else e3)
      in (e4, point\<lparr>point_node := node\<rparr>))"

fun scanPoints :: "Extremes \<Rightarrow> TreegraphPoint list \<Rightarrow> Extremes \<times> TreegraphPoint list" where
  "scanPoints e [] = (e, [])"
| "scanPoints e (point # points) =
     (let (e1, point1) = scanPoint e point;
          (e2, points1) = scanPoints e1 points
      in (e2, point1 # points1))"

text \<open>The modifiers from the extremes. With no point at all the extremes stay infinite
  and the source divides by an infinite span (\<open>ax\<close> is a zero, \<open>bx\<close> is \<open>NaN\<close>); that
  result is not a real number and is \<open>None\<close> here.\<close>

definition modifiersOf :: "Chart \<Rightarrow> Extremes \<Rightarrow> LayoutModifiers option" where
  "modifiersOf chart e =
     (case (minX e, maxX e, minY e, maxY e) of
        (Num mnX, Num mxX, Num mnY, Num mxY) \<Rightarrow>
          (let a_y = (if mxY = mnY then 1
                      else (plotSizeY chart - (minYSize e + maxYSize e) / 2) / (mxY - mnY));
               b_y = (if mxY = mnY then plotSizeY chart / 2
                      else - a_y * mnY + minYSize e / 2);
               a_x = (if mxX = mnX then 1
                      else (plotSizeX chart - (maxXSize e + maxXSize e) / 2) / (mxX - mnX));
               b_x = (if mxX = mnX then plotSizeX chart / 2
                      else - a_x * mnX + minXSize e / 2)
           in Some \<lparr>lm_ax = a_x, lm_bx = b_x, lm_ay = a_y, lm_by = b_y\<rparr>)
      | _ \<Rightarrow> None)"

definition getLayoutModifiers ::
  "Chart \<Rightarrow> TreegraphPoint list \<Rightarrow> LayoutModifiers option \<times> TreegraphPoint list" where
  "getLayoutModifiers chart points =
     (let (e, points1) = scanPoints initialExtremes points
      in (modifiersOf chart e, points1))"

text \<open>An extreme that holds a number; once all four do, they keep doing so.\<close>

fun isNum :: "extnum \<Rightarrow> bool" where
  "isNum (Num v) = True"
| "isNum NegInfinity = False"
| "isNum PosInfinity = False"

definition settled :: "Extremes \<Rightarrow> bool" where
  "settled e = (isNum (minX e) \<and> isNum (maxX e) \<and> isNum (minY e) \<and> isNum (maxY e))"

section \<open>Node placement: translateNode\<close>

text \<open>\<open>symbol || 'circle'\<close>: an undefined or empty symbol name falls back to the
  circle.\<close>

definition symbolOrCircle :: "string option \<Rightarrow> string" where
  "symbolOrCircle symbol = (if truthy symbol then the symbol else ''circle'')"

text \<open>The table \<open>symbols\<close> of the SVG renderer (Core/Renderer/SVG/SVGRenderer) maps a
  symbol name to the function that draws its path; it is a parameter. \<open>reversed\<close> is
  \<open>this.options.reversed\<close>.\<close>

definition translateNode ::
  "(string \<Rightarrow> real \<Rightarrow> real \<Rightarrow> real \<Rightarrow> real \<Rightarrow> SVGPath) \<Rightarrow> Chart \<Rightarrow> bool \<Rightarrow>
   LayoutModifiers \<Rightarrow> TreegraphPoint \<Rightarrow> TreegraphPoint" where
  "translateNode symbols chart reversed layoutModifier point =
     (let node = point_node point;
          x = lm_ax layoutModifier * xPosition node + lm_bx layoutModifier;
          y = lm_ay layoutModifier * yPosition node + lm_by layoutModifier;
          symbol = marker_symbol (opt_marker (point_options point));
          height = nodeSizeY node;
          width = nodeSizeX node;
          nodeX = (if inverted chart
                   then plotSizeX chart - width / 2 - x
                   else x - width / 2);
          nodeY = (if \<not> reversed
                   then plotSizeY chart - y - height / 2
                   else y - height / 2)
      in point
         \<lparr>point_node := node\<lparr>node_x := Some nodeX, node_y := Some nodeY\<rparr>,
          shapeType := Some ''path'',
          plotX := Some nodeX,
          plotY := Some nodeY,
          shapeArgs := Some
            \<lparr>sa_d = symbols (symbolOrCircle symbol) nodeX nodeY width height,
             sa_x = Some nodeX, sa_y = Some nodeY,
             sa_width = Some width, sa_height = Some height\<rparr>,
          tooltipPos := Some
            (if inverted chart
             then (plotSizeY chart - nodeY - height / 2, plotSizeX chart - nodeX - width / 2)
             else (nodeX + width / 2, nodeY))\<rparr>)"

section \<open>Links\<close>

text \<open>\<open>this.options.link\<close> of the series.\<close>

record SeriesLinkOptions =
  series_link_lineWidth :: real
  series_link_offset :: "real option"
  series_link_type :: "string option"
  series_link_radius :: real

record DlBox =
  dl_x :: real
  dl_y :: real
  dl_height :: real
  dl_width :: real

text \<open>A link (TreegraphLink). \<open>fromNode_shapeArgs\<close> and \<open>toNode_shapeArgs\<close> are
  \<open>link.fromNode.shapeArgs\<close> and \<open>link.toNode.shapeArgs\<close>, the placed geometry of the
  two endpoints when the link is translated; \<open>link_d\<close> is \<open>link.shapeArgs.d\<close>.\<close>

record TreegraphLink =
  link_index :: "nat option"
  link_options :: PointOptions
  fromNode_shapeArgs :: "ShapeArgs option"
  toNode_shapeArgs :: "ShapeArgs option"
  link_plotX :: "real option"
  link_plotY :: "real option"
  link_shapeType :: "string option"
  link_d :: "SVGPath option"
  link_dlBox :: "DlBox option"
  link_tooltipPos :: "(real \<times> real) option"

subsection \<open>Link geometry: translateLink\<close>

text \<open>The half-pixel offset \<open>crisp = (Math.round(linkWidth) % 2) / 2\<close>.\<close>

definition crispOffset :: "real \<Rightarrow> real" where
  "crispOffset linkWidth = real_of_int (js_rem (Math_round linkWidth) 2) / 2"

text \<open>The connection points \<open>(x1, y1, x2, y2)\<close> of a link between two placed boxes:
  the declarations of \<open>x1\<close>, \<open>y1\<close>, \<open>x2\<close>, \<open>y2\<close> in \<open>translateLink\<close> and the adjustment
  \<open>if (inverted) { x1 -= ...; x2 += ...; }\<close> that follows them.\<close>

definition connectionPoints ::
  "Chart \<Rightarrow> real \<Rightarrow> ShapeArgs \<Rightarrow> ShapeArgs \<Rightarrow> real \<times> real \<times> real \<times> real" where
  "connectionPoints chart crisp fromArgs toArgs =
     (let x1 = real_of_int \<lfloor>orZero (sa_x fromArgs) + orZero (sa_width fromArgs)\<rfloor> + crisp;
          y1 = real_of_int \<lfloor>orZero (sa_y fromArgs) + orZero (sa_height fromArgs) / 2\<rfloor> + crisp;
          x2 = real_of_int \<lfloor>orZero (sa_x toArgs)\<rfloor> + crisp;
          y2 = real_of_int \<lfloor>orZero (sa_y toArgs) + orZero (sa_height toArgs) / 2\<rfloor> + crisp;
          x1 = (if inverted chart then x1 - orZero (sa_width fromArgs) else x1);
          x2 = (if inverted chart then x2 + orZero (sa_width toArgs) else x2)
      in (x1, y1, x2, y2))"

text \<open>The link type in force: \<open>pick(link.options.link && link.options.link.type,
  this.options.link.type)\<close>.\<close>

definition linkTypeOf :: "SeriesLinkOptions \<Rightarrow> TreegraphLink \<Rightarrow> string option" where
  "linkTypeOf linkOptions link =
     pick2
       (case opt_link (link_options link) of
          None \<Rightarrow> None
        | Some own \<Rightarrow> link_type own)
       (series_link_type linkOptions)"

text \<open>\<open>curvedPath\<close> is \<open>PathUtilities.curvedPath\<close> (Series/PathUtilities), the helper
  that rounds the corners of a polyline by a radius; it is a parameter.\<close>

definition translateLink ::
  "(SVGPath \<Rightarrow> real \<Rightarrow> SVGPath) \<Rightarrow> Chart \<Rightarrow> SeriesLinkOptions \<Rightarrow> TreegraphLink \<Rightarrow>
   TreegraphLink" where
  "translateLink curvedPath chart linkOptions link =
     (let linkWidth = series_link_lineWidth linkOptions;
          crisp = crispOffset linkWidth;
          factor = pick (series_link_offset linkOptions) (1 / 2);
          type = linkTypeOf linkOptions link
      in case (fromNode_shapeArgs link, toNode_shapeArgs link) of
           (Some fromArgs, Some toArgs) \<Rightarrow>
             (let (x1, y1, x2, y2) = connectionPoints chart crisp fromArgs toArgs;
                  xMiddle = real_of_int \<lfloor>(x2 + x1) / 2\<rfloor> + crisp;
                  d = (if type = Some ''straight'' then
                         [MoveTo x1 y1, LineTo x2 y2]
                       else if type = Some ''curved'' then
                         (let offset = \<bar>x2 - x1\<bar> * factor * (if inverted chart then - 1 else 1)
                          in [MoveTo x1 y1, CurveTo (x1 + offset) y1 (x2 - offset) y2 x2 y2])
                       else
                         curvedPath
                           [MoveTo x1 y1, LineTo xMiddle y1, LineTo xMiddle y2, LineTo x2 y2]
                           (series_link_radius linkOptions));
                  dlBox = \<lparr>dl_x = (x1 + x2) / 2, dl_y = (y1 + y2) / 2,
                           dl_height = linkWidth, dl_width = 0\<rparr>
              in link
                 \<lparr>link_plotX := Some xMiddle,
                  link_plotY := Some ((y1 + y2) / 2),
                  link_shapeType := Some ''path'',
                  link_d := Some d,
                  link_dlBox := Some dlBox,
                  link_tooltipPos := Some
                    (if inverted chart
                     then (plotSizeY chart - dl_y dlBox, plotSizeX chart - dl_x dlBox)
                     else (dl_x dlBox, dl_y dlBox))\<rparr>)
         | _ \<Rightarrow> link)"

text \<open>Modelled from the spec: \<open>PathUtilities.curvedPath\<close> (Series/PathUtilities) is not in
  the source. The polyline of the default link style has its "corners rounded to a
  configurable radius (degenerate to sharp corners at radius 0)": at radius \<open>0\<close> the path
  is returned with its corners as they are; how a corner is rounded at another radius is
  the parameter \<open>rounding\<close>.\<close>

definition curvedPath_spec :: "(SVGPath \<Rightarrow> real \<Rightarrow> SVGPath) \<Rightarrow> SVGPath \<Rightarrow> real \<Rightarrow> SVGPath" where
  "curvedPath_spec rounding path r = (if r = 0 then path else rounding path r)"

subsection \<open>The list of links: getLinks\<close>

text \<open>
  Link objects are shared: \<open>point.linkToParent\<close>, the array \<open>links\<close> that \<open>getLinks\<close>
  builds and the array \<open>series.links\<close> of the previous pass hold references to the same
  objects, and \<open>getLinks\<close> writes \<open>index\<close> through them. The store is the list of all
  link objects, a reference is a position in it, and a new object is appended. A
  reference of the program always designates an object (\<open>refs_in_store\<close> below); a
  write through \<open>store[r := v]\<close> leaves everything but the object at \<open>r\<close> as it is.

  The class of the links, \<open>series.LinkClass\<close> (TreegraphLink), is a parameter: \<open>lc_init\<close>
  is \<open>new LinkClass().init(series, options, void 0, point)\<close>, \<open>lc_update\<close> is
  \<open>link.update(options, false)\<close> and \<open>lc_destroy\<close> is \<open>link.destroy()\<close>, each acting on
  the link object alone.
\<close>

record LinkClass =
  lc_init :: "PointOptions \<Rightarrow> TreegraphPoint \<Rightarrow> TreegraphLink"
  lc_update :: "TreegraphLink \<Rightarrow> PointOptions \<Rightarrow> TreegraphLink"
  lc_destroy :: "TreegraphLink \<Rightarrow> TreegraphLink"

type_synonym store = "TreegraphLink list"

text \<open>\<open>array.splice(start)\<close> with one argument removes every element from \<open>start\<close> to
  the end; an undefined \<open>start\<close> counts as \<open>0\<close>. The array that is left:\<close>

definition spliceFrom :: "nat option \<Rightarrow> 'a list \<Rightarrow> 'a list" where
  "spliceFrom start xs = take (case start of None \<Rightarrow> 0 | Some n \<Rightarrow> n) xs"

text \<open>The state of the loop: the local array \<open>links\<close>, the array \<open>series.links\<close> and the
  store.\<close>

record LinksState =
  ls_links :: "ref list"
  ls_seriesLinks :: "ref list"
  ls_store :: store

text \<open>One call of the callback of \<open>this.data.forEach\<close>.\<close>

definition getLinksPoint ::
  "LinkClass \<Rightarrow> LinksState \<Rightarrow> TreegraphPoint \<Rightarrow> LinksState \<times> TreegraphPoint" where
  "getLinksPoint linkClass s point =
     (if truthy (node_parent (point_node point)) then
        (let (store1, r) =
               (case linkToParent point of
                  None \<Rightarrow>
                    (ls_store s @ [lc_init linkClass (point_options point) point],
                     length (ls_store s))
                | Some r0 \<Rightarrow>
                    ((ls_store s)[r0 := lc_update linkClass (ls_store s ! r0) (point_options point)],
                     r0));
             links1 = ls_links s @ [r];
             store2 = store1[r := (store1 ! r)\<lparr>link_index := Some (length links1 - 1)\<rparr>]
         in (s\<lparr>ls_links := links1, ls_store := store2\<rparr>, point\<lparr>linkToParent := Some r\<rparr>))
      else
        (case linkToParent point of
           None \<Rightarrow> (s, point)
         | Some r \<Rightarrow>
             (s\<lparr>ls_seriesLinks := spliceFrom (link_index (ls_store s ! r)) (ls_seriesLinks s),
                ls_store := (ls_store s)[r := lc_destroy linkClass (ls_store s ! r)]\<rparr>,
              point\<lparr>linkToParent := None\<rparr>)))"

fun forEachData ::
  "LinkClass \<Rightarrow> LinksState \<Rightarrow> TreegraphPoint list \<Rightarrow> LinksState \<times> TreegraphPoint list" where
  "forEachData linkClass s [] = (s, [])"
| "forEachData linkClass s (point # points) =
     (let (s1, point1) = getLinksPoint linkClass s point;
          (s2, points1) = forEachData linkClass s1 points
      in (s2, point1 # points1))"

record Series =
  series_data :: "TreegraphPoint list"
  series_links :: "ref list"

text \<open>\<open>getLinks\<close> returns the array \<open>links\<close>; the series and the store are returned as
  the call leaves them.\<close>

definition getLinks :: "LinkClass \<Rightarrow> Series \<Rightarrow> store \<Rightarrow> ref list \<times> Series \<times> store" where
  "getLinks linkClass series store =
     (let (s, data1) =
            forEachData linkClass
              \<lparr>ls_links = [], ls_seriesLinks = series_links series, ls_store = store\<rparr>
              (series_data series)
      in (ls_links s,
          series\<lparr>series_data := data1, series_links := ls_seriesLinks s\<rparr>,
          ls_store s))"

text \<open>The references the points of a list hold, in the order of the points.\<close>

definition linkRefs :: "TreegraphPoint list \<Rightarrow> ref list" where
  "linkRefs points = concat (map (\<lambda>p. case linkToParent p of None \<Rightarrow> [] | Some r \<Rightarrow> [r]) points)"

text \<open>Every reference designates an object of the store, and no two points share a
  link object.\<close>

definition refs_in_store :: "TreegraphPoint list \<Rightarrow> store \<Rightarrow> bool" where
  "refs_in_store points store = (list_all (\<lambda>r. r < length store) (linkRefs points))"

definition own_links :: "TreegraphPoint list \<Rightarrow> bool" where
  "own_links points = distinct (linkRefs points)"

text \<open>A list of references is indexed when every link in it holds its own position in
  \<open>index\<close>.\<close>

definition indexed :: "store \<Rightarrow> ref list \<Rightarrow> bool" where
  "indexed store links =
     (map (\<lambda>r. link_index (store ! r)) links = map Some [0..<length links])"

text \<open>The invariant of the loop of \<open>getLinks\<close>: the links collected so far are indexed and
  in the store, and the links of the points still to come are in the store, each owned by
  one point and not yet collected.\<close>

definition links_inv :: "LinksState \<Rightarrow> TreegraphPoint list \<Rightarrow> bool" where
  "links_inv s ps \<longleftrightarrow>
     indexed (ls_store s) (ls_links s) \<and>
     list_all (\<lambda>r. r < length (ls_store s)) (ls_links s) \<and>
     refs_in_store ps (ls_store s) \<and> own_links ps \<and>
     list_all (\<lambda>r. r \<notin> set (ls_links s)) (linkRefs ps)"

text \<open>Where a link stands in \<open>series.links\<close>, there its \<open>index\<close> says so.\<close>

definition placed_at_index :: "LinksState \<Rightarrow> ref \<Rightarrow> bool" where
  "placed_at_index s r \<longleftrightarrow>
     (\<forall>j < length (ls_seriesLinks s).
        ls_seriesLinks s ! j = r \<longrightarrow> link_index (ls_store s ! r) = Some j)"

section \<open>Collapsing and expanding\<close>

text \<open>The tree of nodes: a node refers to its point (\<open>node.point\<close>) and owns the ordered
  sequence of its children (\<open>node.children\<close>).\<close>

datatype TreeNode = TreeNode (tn_point: TreegraphPoint) (tn_children: "TreeNode list")

text \<open>Modelled from the spec: \<open>Point.update\<close> of Core/Series/Point is not in the source;
  the walk issues "a non-layout-affecting update notification per node". The call is
  \<open>point.update({ visible: v }, false)\<close>: the point's \<open>visible\<close> becomes \<open>v\<close> and its other
  fields stay as they are.\<close>

definition update_visible :: "TreegraphPoint \<Rightarrow> bool \<Rightarrow> TreegraphPoint" where
  "update_visible point v = point\<lparr>visible := v\<rparr>"

text \<open>\<open>collapseTreeFromPoint\<close> and the loop \<open>node.children.forEach\<close> in it. The callback
  sets \<open>hidden\<close> on the child's point, calls its \<open>update\<close> and recurses with
  \<open>child.point.hidden\<close>, read after the two writes.\<close>

fun collapseTreeFromPoint :: "TreeNode \<Rightarrow> bool \<Rightarrow> TreeNode"
  and forEachChild :: "TreeNode list \<Rightarrow> bool \<Rightarrow> TreeNode list" where
  "collapseTreeFromPoint (TreeNode p cs) hid = TreeNode p (forEachChild cs hid)"
| "forEachChild [] hid = []"
| "forEachChild (TreeNode cp ccs # rest) hid =
     (let q = update_visible (cp\<lparr>hidden := hid\<rparr>) (\<not> hid)
      in collapseTreeFromPoint (TreeNode q ccs) (hidden q) # forEachChild rest hid)"

text \<open>The click handler of the series, on the subtree of the clicked node (the redraw
  that follows is the next pass of the pipeline).\<close>

definition click :: "TreeNode \<Rightarrow> TreeNode" where
  "click node =
     (let p = (tn_point node)\<lparr>collapsed := \<not> collapsed (tn_point node)\<rparr>
      in collapseTreeFromPoint (TreeNode p (tn_children node)) (collapsed p))"

text \<open>The proper descendants of a node, and the nodes of a list of subtrees, in
  document order.\<close>

fun descendants :: "TreeNode \<Rightarrow> TreeNode list"
  and forestNodes :: "TreeNode list \<Rightarrow> TreeNode list" where
  "descendants (TreeNode p cs) = forestNodes cs"
| "forestNodes [] = []"
| "forestNodes (c # rest) = c # descendants c @ forestNodes rest"

section \<open>Sample inputs\<close>

text \<open>Concrete points, boxes and links on which the properties below are evaluated.\<close>

definition circleMarker :: "real \<Rightarrow> MarkerOptions" where
  "circleMarker r =
     \<lparr>marker_symbol = Some ''circle'', marker_radius = r, marker_width = None,
      marker_height = None, marker_lineWidth = Some 0\<rparr>"

definition rectMarker :: "real option \<Rightarrow> real option \<Rightarrow> real \<Rightarrow> MarkerOptions" where
  "rectMarker w h r =
     \<lparr>marker_symbol = Some ''rect'', marker_radius = r, marker_width = w,
      marker_height = h, marker_lineWidth = Some 0\<rparr>"

definition samplePoint ::
  "string \<Rightarrow> string option \<Rightarrow> real \<Rightarrow> real \<Rightarrow> MarkerOptions \<Rightarrow> TreegraphPoint" where
  "samplePoint name parent xp yp marker =
     \<lparr>point_id = name,
      point_node =
        \<lparr>node_parent = parent, xPosition = xp, yPosition = yp, nodeSizeX = 0, nodeSizeY = 0,
         node_x = None, node_y = None\<rparr>,
      point_options = \<lparr>opt_marker = marker, opt_link = None\<rparr>,
      collapsed = False, hidden = False, visible = True, linkToParent = None,
      shapeType = None, plotX = None, plotY = None, shapeArgs = None, tooltipPos = None\<rparr>"

definition sampleChart :: "bool \<Rightarrow> Chart" where
  "sampleChart isInverted = \<lparr>plotSizeX = 100, plotSizeY = 100, inverted = isInverted\<rparr>"

definition sampleBox :: "real \<Rightarrow> real \<Rightarrow> real \<Rightarrow> real \<Rightarrow> ShapeArgs" where
  "sampleBox x y w h =
     \<lparr>sa_d = [], sa_x = Some x, sa_y = Some y, sa_width = Some w, sa_height = Some h\<rparr>"

definition sampleLink :: "ShapeArgs option \<Rightarrow> ShapeArgs option \<Rightarrow> TreegraphLink" where
  "sampleLink fromArgs toArgs =
     \<lparr>link_index = None,
      link_options = \<lparr>opt_marker = circleMarker 10, opt_link = None\<rparr>,
      fromNode_shapeArgs = fromArgs, toNode_shapeArgs = toArgs,
      link_plotX = None, link_plotY = None, link_shapeType = None, link_d = None,
      link_dlBox = None, link_tooltipPos = None\<rparr>"

definition sampleLinkOptions :: "real \<Rightarrow> string option \<Rightarrow> real \<Rightarrow> SeriesLinkOptions" where
  "sampleLinkOptions w t r =
     \<lparr>series_link_lineWidth = w, series_link_offset = None, series_link_type = t,
      series_link_radius = r\<rparr>"

text \<open>A link class for the examples: a new link takes the options of its point, an
  update replaces the options, and destroying a link drops its path.\<close>

definition sampleLinkClass :: LinkClass where
  "sampleLinkClass =
     \<lparr>lc_init = (\<lambda>options point. (sampleLink None None)\<lparr>link_options := options\<rparr>),
      lc_update = (\<lambda>link options. link\<lparr>link_options := options\<rparr>),
      lc_destroy = (\<lambda>link. link\<lparr>link_d := None\<rparr>)\<rparr>"

text \<open>A series after a pass in which \<open>A\<close> and \<open>B\<close> had parents and got the links \<open>0\<close> and
  \<open>1\<close>: now \<open>A\<close> is the root, \<open>B\<close> is its child and hidden, and \<open>C\<close> is a new child of
  \<open>A\<close>.\<close>

definition sampleStore :: store where
  "sampleStore =
     [(sampleLink None None)\<lparr>link_index := Some 0\<rparr>,
      (sampleLink None None)\<lparr>link_index := Some 1\<rparr>]"

definition sampleSeries :: Series where
  "sampleSeries =
     \<lparr>series_data =
        [(samplePoint ''A'' None 0 0 (circleMarker 10))\<lparr>linkToParent := Some 0\<rparr>,
         (samplePoint ''B'' (Some ''A'') 1 0 (circleMarker 10))
           \<lparr>hidden := True, linkToParent := Some 1\<rparr>,
         samplePoint ''C'' (Some ''A'') 1 1 (circleMarker 10)],
      series_links = [0, 1]\<rparr>"

text \<open>A tree of three nodes, each the only child of the one before: \<open>A\<close> and \<open>B\<close> are
  collapsed, so that \<open>B\<close> and \<open>C\<close> are hidden.\<close>

definition sampleTree :: TreeNode where
  "sampleTree =
     TreeNode ((samplePoint ''A'' None 0 0 (circleMarker 10))\<lparr>collapsed := True\<rparr>)
       [TreeNode ((samplePoint ''B'' (Some ''A'') 1 0 (circleMarker 10))
                    \<lparr>collapsed := True, hidden := True, visible := False\<rparr>)
          [TreeNode ((samplePoint ''C'' (Some ''B'') 2 0 (circleMarker 10))
                       \<lparr>hidden := True, visible := False\<rparr>)
             []]]"

text \<open>What the properties below read of a node: the id of its point and the flags
  \<open>collapsed\<close> and \<open>hidden\<close>.\<close>

definition flags :: "TreeNode \<Rightarrow> string \<times> bool \<times> bool" where
  "flags n = (point_id (tn_point n), collapsed (tn_point n), hidden (tn_point n))"

section \<open>Properties of the coordinate transform and the node placement\<close>

lemma scanPoint_extremes:
  "minX (fst (scanPoint e p)) =
     (if le_ext (xPosition (point_node p)) (minX e) then Num (xPosition (point_node p)) else minX e)"
  "maxX (fst (scanPoint e p)) =
     (if ge_ext (xPosition (point_node p)) (maxX e) then Num (xPosition (point_node p)) else maxX e)"
  "minY (fst (scanPoint e p)) =
     (if le_ext (yPosition (point_node p)) (minY e) then Num (yPosition (point_node p)) else minY e)"
  "maxY (fst (scanPoint e p)) =
     (if ge_ext (yPosition (point_node p)) (maxY e) then Num (yPosition (point_node p)) else maxY e)"
  by (simp_all add: scanPoint_def Let_def)

lemma scanPoints_Cons:
  "fst (scanPoints e (p # ps)) = fst (scanPoints (fst (scanPoint e p)) ps)"
  by (simp add: split_beta Let_def)

lemma isNum_iff: "isNum v \<longleftrightarrow> (\<exists>a. v = Num a)"
  by (cases v) simp_all

lemma settled_scanPoint: "settled e \<Longrightarrow> settled (fst (scanPoint e p))"
  by (auto simp: settled_def scanPoint_extremes)

lemma settled_scanPoints: "settled e \<Longrightarrow> settled (fst (scanPoints e ps))"
proof (induction ps arbitrary: e)
  case Nil
  then show ?case by simp
next
  case (Cons p ps)
  then show ?case by (simp only: scanPoints_Cons settled_scanPoint)
qed

lemma settled_first: "settled (fst (scanPoint initialExtremes p))"
  by (simp add: settled_def scanPoint_extremes initialExtremes_def)

lemma settled_nonempty: "ps \<noteq> [] \<Longrightarrow> settled (fst (scanPoints initialExtremes ps))"
  by (cases ps) (simp_all add: scanPoints_Cons settled_scanPoints settled_first del: scanPoints.simps)

lemma same_x_scanPoints:
  "list_all (\<lambda>q. xPosition (point_node q) = x0) ps \<Longrightarrow>
   minX e = Num x0 \<Longrightarrow> maxX e = Num x0 \<Longrightarrow>
   minX (fst (scanPoints e ps)) = Num x0 \<and> maxX (fst (scanPoints e ps)) = Num x0"
proof (induction ps arbitrary: e)
  case Nil
  then show ?case by simp
next
  case (Cons p ps)
  from Cons.prems have "minX (fst (scanPoint e p)) = Num x0" "maxX (fst (scanPoint e p)) = Num x0"
    by (simp_all add: scanPoint_extremes)
  with Cons.IH [of "fst (scanPoint e p)"] Cons.prems(1) show ?case
    by (simp add: scanPoints_Cons del: scanPoints.simps)
qed

lemma same_y_scanPoints:
  "list_all (\<lambda>q. yPosition (point_node q) = y0) ps \<Longrightarrow>
   minY e = Num y0 \<Longrightarrow> maxY e = Num y0 \<Longrightarrow>
   minY (fst (scanPoints e ps)) = Num y0 \<and> maxY (fst (scanPoints e ps)) = Num y0"
proof (induction ps arbitrary: e)
  case Nil
  then show ?case by simp
next
  case (Cons p ps)
  from Cons.prems have "minY (fst (scanPoint e p)) = Num y0" "maxY (fst (scanPoint e p)) = Num y0"
    by (simp_all add: scanPoint_extremes)
  with Cons.IH [of "fst (scanPoint e p)"] Cons.prems(1) show ?case
    by (simp add: scanPoints_Cons del: scanPoints.simps)
qed

lemma degenerate_x:
  assumes "ps \<noteq> []" and "list_all (\<lambda>q. xPosition (point_node q) = x0) ps"
  shows "\<exists>m. fst (getLayoutModifiers chart ps) = Some m \<and> lm_ax m = 1 \<and>
           lm_bx m = plotSizeX chart / 2"
proof -
  obtain p rest where ps: "ps = p # rest" using assms(1) by (cases ps) auto
  let ?e = "fst (scanPoints initialExtremes ps)"
  have x: "minX ?e = Num x0 \<and> maxX ?e = Num x0"
    using assms(2) unfolding ps scanPoints_Cons
    by (intro same_x_scanPoints) (simp_all add: scanPoint_extremes initialExtremes_def)
  from settled_nonempty [OF assms(1)] obtain c d where "minY ?e = Num c" "maxY ?e = Num d"
    by (auto simp: settled_def isNum_iff)
  with x show ?thesis
    by (simp add: getLayoutModifiers_def modifiersOf_def split_beta Let_def)
qed

lemma degenerate_y:
  assumes "ps \<noteq> []" and "list_all (\<lambda>q. yPosition (point_node q) = y0) ps"
  shows "\<exists>m. fst (getLayoutModifiers chart ps) = Some m \<and> lm_ay m = 1 \<and>
           lm_by m = plotSizeY chart / 2"
proof -
  obtain p rest where ps: "ps = p # rest" using assms(1) by (cases ps) auto
  let ?e = "fst (scanPoints initialExtremes ps)"
  have y: "minY ?e = Num y0 \<and> maxY ?e = Num y0"
    using assms(2) unfolding ps scanPoints_Cons
    by (intro same_y_scanPoints) (simp_all add: scanPoint_extremes initialExtremes_def)
  from settled_nonempty [OF assms(1)] obtain a b where "minX ?e = Num a" "maxX ?e = Num b"
    by (auto simp: settled_def isNum_iff)
  with y show ?thesis
    by (simp add: getLayoutModifiers_def modifiersOf_def split_beta Let_def)
qed

lemma single_point_modifiers:
  "getLayoutModifiers chart [point] =
     (Some \<lparr>lm_ax = 1, lm_bx = plotSizeX chart / 2, lm_ay = 1, lm_by = plotSizeY chart / 2\<rparr>,
      [snd (scanPoint initialExtremes point)])"
  by (simp add: getLayoutModifiers_def modifiersOf_def split_beta Let_def scanPoint_extremes
      initialExtremes_def)

lemma single_point_node:
  "xPosition (point_node (snd (scanPoint e point))) = xPosition (point_node point)"
  "yPosition (point_node (snd (scanPoint e point))) = yPosition (point_node point)"
  by (simp_all add: scanPoint_def Let_def)

text \<open>
  Claim C1. For each axis with \<open>max \<noteq> min\<close>, the scale factor is
  \<open>(availablePixelSpan - (sizeAtMin + sizeAtMax) / 2) / (max - min)\<close>. Two boxes, \<open>20\<close>
  wide and high at \<open>(0, 0)\<close> and \<open>40\<close> wide and high at \<open>(1, 1)\<close>, on a plot area of
  \<open>100 \<times> 100\<close>: the sizes recorded at the extremes are \<open>20\<close> and \<open>40\<close> on both axes and
  the factor of the claim is \<open>(100 - 30) / 1 = 70\<close>. \<open>ay\<close> is \<open>70\<close>; \<open>ax\<close> is \<open>60\<close>, since the
  source adds \<open>maxXSize\<close> to itself where \<open>ay\<close> adds \<open>minYSize\<close> and \<open>maxYSize\<close>.
\<close>

theorem getLayoutModifiers_ax_at_sample:
  "fst (getLayoutModifiers (sampleChart False)
     [samplePoint ''A'' None 0 0 (rectMarker (Some 20) (Some 20) 10),
      samplePoint ''B'' (Some ''A'') 1 1 (rectMarker (Some 40) (Some 40) 10)])
   = Some \<lparr>lm_ax = 60, lm_bx = 10, lm_ay = 70, lm_by = 10\<rparr> \<and>
   fst (scanPoints initialExtremes
     [samplePoint ''A'' None 0 0 (rectMarker (Some 20) (Some 20) 10),
      samplePoint ''B'' (Some ''A'') 1 1 (rectMarker (Some 40) (Some 40) 10)])
   = \<lparr>minX = Num 0, maxX = Num 1, minY = Num 0, maxY = Num 1,
      maxXSize = 40, minXSize = 20, maxYSize = 40, minYSize = 20\<rparr> \<and>
   ((plotSizeX (sampleChart False) - (20 + 40) / 2) / (1 - 0) :: real) = 70"
  by (simp add: getLayoutModifiers_def modifiersOf_def scanPoint_def initialExtremes_def
      samplePoint_def rectMarker_def sampleChart_def markerSizeX_def markerSizeY_def
      pick_def orZero_def Let_def)

text \<open>
  Claim C2. For a point whose marker symbol is \<open>'circle'\<close> the footprint of its node is
  \<open>2 \<times> radius\<close> on both axes. With the default marker, a circle of radius \<open>10\<close>,
  \<open>nodeSizeX\<close> is \<open>20\<close> and \<open>nodeSizeY\<close> is \<open>0\<close>: the comma expression
  \<open>(pick(markerOptions.radius), 0) * 2\<close> is \<open>0 * 2\<close>.
\<close>

theorem circle_nodeSizeY_at_sample:
  "map (\<lambda>q. (nodeSizeX (point_node q), nodeSizeY (point_node q)))
     (snd (getLayoutModifiers (sampleChart False)
        [samplePoint ''A'' None 0 0 (circleMarker 10)]))
   = [(20, 0)]"
  by (simp add: getLayoutModifiers_def scanPoint_def samplePoint_def circleMarker_def
      markerSizeX_def markerSizeY_def comma_def Let_def)

text \<open>
  Claim C5, as amended. When an axis is degenerate (all points share one abstract
  coordinate on it, so that its maximum equals its minimum), \<open>getLayoutModifiers\<close> does
  not divide by the span: the scale is \<open>1\<close> and the offset is half the plot span. For a
  series of a single point both axes are degenerate, and the centre of the placed box is
  at half the plot span plus the node's abstract coordinate (minus it on the x axis of an
  inverted chart, and on the y axis unless the series is reversed): the node is at the
  centre of the plot area when its abstract coordinates are \<open>0\<close>.
\<close>

theorem degenerate_axis_placement:
  "(points \<noteq> [] \<and> list_all (\<lambda>q. xPosition (point_node q) = x0) points \<longrightarrow>
      (\<exists>m. fst (getLayoutModifiers chart points) = Some m \<and> lm_ax m = 1 \<and>
         lm_bx m = plotSizeX chart / 2)) \<and>
   (points \<noteq> [] \<and> list_all (\<lambda>q. yPosition (point_node q) = y0) points \<longrightarrow>
      (\<exists>m. fst (getLayoutModifiers chart points) = Some m \<and> lm_ay m = 1 \<and>
         lm_by m = plotSizeY chart / 2)) \<and>
   (\<exists>m point1.
      getLayoutModifiers chart [point] = (Some m, [point1]) \<and>
      m = \<lparr>lm_ax = 1, lm_bx = plotSizeX chart / 2, lm_ay = 1, lm_by = plotSizeY chart / 2\<rparr> \<and>
      plotX (translateNode symbols chart reversed m point1) =
        Some (plotSizeX chart / 2
              + (if inverted chart then - xPosition (point_node point)
                 else xPosition (point_node point))
              - nodeSizeX (point_node point1) / 2) \<and>
      plotY (translateNode symbols chart reversed m point1) =
        Some (plotSizeY chart / 2
              + (if reversed then yPosition (point_node point)
                 else - yPosition (point_node point))
              - nodeSizeY (point_node point1) / 2))"
proof (intro conjI impI)
  assume "points \<noteq> [] \<and> list_all (\<lambda>q. xPosition (point_node q) = x0) points"
  then show "\<exists>m. fst (getLayoutModifiers chart points) = Some m \<and> lm_ax m = 1 \<and>
         lm_bx m = plotSizeX chart / 2"
    using degenerate_x by blast
next
  assume "points \<noteq> [] \<and> list_all (\<lambda>q. yPosition (point_node q) = y0) points"
  then show "\<exists>m. fst (getLayoutModifiers chart points) = Some m \<and> lm_ay m = 1 \<and>
         lm_by m = plotSizeY chart / 2"
    using degenerate_y by blast
next
  show "\<exists>m point1.
      getLayoutModifiers chart [point] = (Some m, [point1]) \<and>
      m = \<lparr>lm_ax = 1, lm_bx = plotSizeX chart / 2, lm_ay = 1, lm_by = plotSizeY chart / 2\<rparr> \<and>
      plotX (translateNode symbols chart reversed m point1) =
        Some (plotSizeX chart / 2
              + (if inverted chart then - xPosition (point_node point)
                 else xPosition (point_node point))
              - nodeSizeX (point_node point1) / 2) \<and>
      plotY (translateNode symbols chart reversed m point1) =
        Some (plotSizeY chart / 2
              + (if reversed then yPosition (point_node point)
                 else - yPosition (point_node point))
              - nodeSizeY (point_node point1) / 2)"
    by (simp add: single_point_modifiers translateNode_def Let_def single_point_node)
qed

theorem degenerate_axis_placement_witness:
  "(\<exists>m. fst (getLayoutModifiers (sampleChart False)
           [samplePoint ''A'' None 0 0 (circleMarker 10),
            samplePoint ''B'' (Some ''A'') 0 1 (circleMarker 10)]) = Some m \<and>
        lm_ax m = 1 \<and> lm_bx m = 50) \<and>
   (\<exists>m. fst (getLayoutModifiers (sampleChart False)
           [samplePoint ''A'' None 0 3 (circleMarker 10),
            samplePoint ''B'' (Some ''A'') 1 3 (circleMarker 10)]) = Some m \<and>
        lm_ay m = 1 \<and> lm_by m = 50) \<and>
   (\<exists>point1.
      getLayoutModifiers (sampleChart False) [samplePoint ''A'' None 0 0 (circleMarker 10)]
        = (Some \<lparr>lm_ax = 1, lm_bx = 50, lm_ay = 1, lm_by = 50\<rparr>, [point1]) \<and>
      plotX (translateNode (\<lambda>s x y w h. []) (sampleChart False) False
               \<lparr>lm_ax = 1, lm_bx = 50, lm_ay = 1, lm_by = 50\<rparr> point1)
        = Some (50 - nodeSizeX (point_node point1) / 2) \<and>
      plotY (translateNode (\<lambda>s x y w h. []) (sampleChart False) False
               \<lparr>lm_ax = 1, lm_bx = 50, lm_ay = 1, lm_by = 50\<rparr> point1)
        = Some (50 - nodeSizeY (point_node point1) / 2))"
proof -
  let ?A = "samplePoint ''A'' None 0 0 (circleMarker 10)"
  let ?xs = "[?A, samplePoint ''B'' (Some ''A'') 0 1 (circleMarker 10)]"
  let ?ys = "[samplePoint ''A'' None 0 3 (circleMarker 10),
              samplePoint ''B'' (Some ''A'') 1 3 (circleMarker 10)]"
  have hx: "?xs \<noteq> [] \<and> list_all (\<lambda>q. xPosition (point_node q) = 0) ?xs"
    by (simp add: samplePoint_def)
  have hy: "?ys \<noteq> [] \<and> list_all (\<lambda>q. yPosition (point_node q) = 3) ?ys"
    by (simp add: samplePoint_def)
  have pos: "xPosition (point_node ?A) = 0" "yPosition (point_node ?A) = 0"
    by (simp_all add: samplePoint_def)
  show ?thesis
    using degenerate_axis_placement [of ?xs 0 "sampleChart False" 3 ?A "\<lambda>s x y w h. []" False]
      degenerate_axis_placement [of ?ys 0 "sampleChart False" 3 ?A "\<lambda>s x y w h. []" False]
      hx hy pos
    by (simp add: sampleChart_def)
qed

text \<open>
  The claim as stated places the node of a single-node tree at the centre of the plot
  area. A single point at the abstract position \<open>(1, 0)\<close>, a circle of radius \<open>10\<close> on a
  plot area of \<open>100 \<times> 100\<close>: its box starts at \<open>x = 41\<close> and is \<open>20\<close> wide, so its centre is
  at \<open>51\<close>, not at \<open>50\<close>.
\<close>

theorem single_node_off_centre_counterexample:
  "fst (getLayoutModifiers (sampleChart False) [samplePoint ''A'' None 1 0 (circleMarker 10)])
     = Some \<lparr>lm_ax = 1, lm_bx = 50, lm_ay = 1, lm_by = 50\<rparr> \<and>
   map (\<lambda>q. (plotX q, nodeSizeX (point_node q)))
     (map (translateNode (\<lambda>s x y w h. []) (sampleChart False) False
             \<lparr>lm_ax = 1, lm_bx = 50, lm_ay = 1, lm_by = 50\<rparr>)
        (snd (getLayoutModifiers (sampleChart False)
           [samplePoint ''A'' None 1 0 (circleMarker 10)])))
     = [(Some 41, 20)] \<and>
   (41 + 20 / 2 :: real) \<noteq> plotSizeX (sampleChart False) / 2"
  by (simp add: getLayoutModifiers_def modifiersOf_def scanPoint_def initialExtremes_def
      samplePoint_def circleMarker_def sampleChart_def markerSizeX_def markerSizeY_def
      comma_def orZero_def translateNode_def Let_def)

section \<open>Properties of the link geometry\<close>

text \<open>
  Claim C9. If either endpoint of a link lacks placed geometry (\<open>fromNode.shapeArgs\<close> or
  \<open>toNode.shapeArgs\<close> is absent), \<open>translateLink\<close> leaves the link entirely unchanged:
  no path, plot position, label-anchor box or tooltip anchor is assigned, and nothing is
  raised (the model is a total function that returns the link).
\<close>

theorem translateLink_unplaced_endpoint:
  "fromNode_shapeArgs link = None \<or> toNode_shapeArgs link = None \<Longrightarrow>
   translateLink curvedPath chart linkOptions link = link"
  by (auto simp: translateLink_def Let_def split: option.splits)

theorem translateLink_unplaced_endpoint_witness:
  "toNode_shapeArgs (sampleLink (Some (sampleBox 0 0 10 10)) None) = None \<and>
   translateLink (\<lambda>d r. d) (sampleChart False) (sampleLinkOptions 1 (Some ''curved'') 10)
     (sampleLink (Some (sampleBox 0 0 10 10)) None)
   = sampleLink (Some (sampleBox 0 0 10 10)) None"
proof -
  have h: "fromNode_shapeArgs (sampleLink (Some (sampleBox 0 0 10 10)) None) = None \<or>
           toNode_shapeArgs (sampleLink (Some (sampleBox 0 0 10 10)) None) = None"
    by (simp add: sampleLink_def)
  show ?thesis
    using translateLink_unplaced_endpoint [OF h, of "\<lambda>d r. d" "sampleChart False"
        "sampleLinkOptions 1 (Some ''curved'') 10"]
    by (simp add: sampleLink_def)
qed

lemma crispOffset_cases:
  "crispOffset linkWidth =
     (if even (Math_round linkWidth) then 0
      else if 0 < Math_round linkWidth then 1 / 2 else - 1 / 2)"
proof -
  let ?n = "Math_round linkWidth"
  have "js_rem ?n 2 = (if even ?n then 0 else if 0 < ?n then 1 else - 1)"
  proof (cases "even ?n")
    case True
    then show ?thesis by (simp add: js_rem_def)
  next
    case False
    then have "\<bar>?n\<bar> mod 2 = 1"
      by presburger
    moreover from False have "?n \<noteq> 0" by auto
    ultimately show ?thesis using False by (simp add: js_rem_def sgn_if)
  qed
  then show ?thesis by (simp add: crispOffset_def)
qed

lemma sample_crisp: "crispOffset 1 = 1 / 2"
  by (simp add: crispOffset_def Math_round_def js_rem_def)

lemma sample_connectionPoints:
  "connectionPoints (sampleChart False) (1 / 2) (sampleBox 0 0 10 10) (sampleBox 95 40 10 10)
   = (21 / 2, 11 / 2, 191 / 2, 91 / 2)"
  by (simp add: connectionPoints_def sampleChart_def sampleBox_def orZero_def Let_def)

text \<open>
  Claim C6. For a link of type \<open>'curved'\<close> with both endpoints placed, the path is
  exactly one \<open>MoveTo\<close> followed by one cubic curve from \<open>(x1, y1)\<close> to \<open>(x2, y2)\<close> whose
  control points are \<open>(x1 + o, y1)\<close> and \<open>(x2 - o, y2)\<close>, with
  \<open>o = |x2 - x1| * offsetFactor\<close>; the factor is \<open>link.offset\<close>, or \<open>0.5\<close> when that is
  unset, and the sign of \<open>o\<close> is flipped when the chart is inverted.
\<close>

theorem translateLink_curved_path:
  assumes "fromNode_shapeArgs link = Some fromArgs"
    and "toNode_shapeArgs link = Some toArgs"
    and "linkTypeOf linkOptions link = Some ''curved''"
    and "connectionPoints chart (crispOffset (series_link_lineWidth linkOptions)) fromArgs toArgs
         = (x1, y1, x2, y2)"
    and "offset = \<bar>x2 - x1\<bar>
           * (case series_link_offset linkOptions of None \<Rightarrow> 1 / 2 | Some factor \<Rightarrow> factor)
           * (if inverted chart then - 1 else 1)"
  shows "link_d (translateLink curvedPath chart linkOptions link)
         = Some [MoveTo x1 y1, CurveTo (x1 + offset) y1 (x2 - offset) y2 x2 y2]"
  using assms by (simp add: translateLink_def Let_def pick_def)

theorem translateLink_curved_path_witness:
  "link_d (translateLink (\<lambda>d r. d) (sampleChart False) (sampleLinkOptions 1 (Some ''curved'') 10)
     (sampleLink (Some (sampleBox 0 0 10 10)) (Some (sampleBox 95 40 10 10))))
   = Some [MoveTo (21 / 2) (11 / 2), CurveTo 53 (11 / 2) 53 (91 / 2) (191 / 2) (91 / 2)]"
proof -
  let ?link = "sampleLink (Some (sampleBox 0 0 10 10)) (Some (sampleBox 95 40 10 10))"
  let ?opts = "sampleLinkOptions 1 (Some ''curved'') 10"
  have h1: "fromNode_shapeArgs ?link = Some (sampleBox 0 0 10 10)"
    and h2: "toNode_shapeArgs ?link = Some (sampleBox 95 40 10 10)"
    by (simp_all add: sampleLink_def)
  have h3: "linkTypeOf ?opts ?link = Some ''curved''"
    by (simp add: linkTypeOf_def sampleLink_def sampleLinkOptions_def pick2_def)
  have h4: "connectionPoints (sampleChart False) (crispOffset (series_link_lineWidth ?opts))
      (sampleBox 0 0 10 10) (sampleBox 95 40 10 10) = (21 / 2, 11 / 2, 191 / 2, 91 / 2)"
    by (simp add: sampleLinkOptions_def sample_crisp sample_connectionPoints)
  have h5: "(85 / 2 :: real) = \<bar>191 / 2 - 21 / 2\<bar>
      * (case series_link_offset ?opts of None \<Rightarrow> 1 / 2 | Some factor \<Rightarrow> factor)
      * (if inverted (sampleChart False) then - 1 else 1)"
    by (simp add: sampleLinkOptions_def sampleChart_def)
  show ?thesis
    using translateLink_curved_path [OF h1 h2 h3 h4 h5, of "\<lambda>d r. d"] by simp
qed

text \<open>
  Claim C7, as amended. For a link whose type is neither \<open>'straight'\<close> nor \<open>'curved'\<close>
  (the default, orthogonal style), with both endpoints placed, the path is the
  corner-rounding, by the configured \<open>link.radius\<close>, of the L-shaped polyline
  \<open>MoveTo (x1, y1)\<close>, \<open>LineTo (xMiddle, y1)\<close>, \<open>LineTo (xMiddle, y2)\<close>, \<open>LineTo (x2, y2)\<close>,
  where \<open>xMiddle\<close> is \<open>floor((x1 + x2) / 2) + crisp\<close>: the midpoint \<open>mid\<close> of the two
  connection points' x coordinates, floored, plus the crisp offset. It lies in
  \<open>(mid + crisp - 1, mid + crisp]\<close> and is the midpoint exactly when the fractional part
  of \<open>mid\<close> equals the crisp offset. At radius \<open>0\<close> the corners degenerate to sharp
  corners: the path is the polyline itself.
\<close>

theorem translateLink_default_path:
  assumes "fromNode_shapeArgs link = Some fromArgs"
    and "toNode_shapeArgs link = Some toArgs"
    and "linkTypeOf linkOptions link \<noteq> Some ''straight''"
    and "linkTypeOf linkOptions link \<noteq> Some ''curved''"
    and "connectionPoints chart (crispOffset (series_link_lineWidth linkOptions)) fromArgs toArgs
         = (x1, y1, x2, y2)"
    and "xMiddle = real_of_int \<lfloor>(x2 + x1) / 2\<rfloor> + crispOffset (series_link_lineWidth linkOptions)"
    and "polyline = [MoveTo x1 y1, LineTo xMiddle y1, LineTo xMiddle y2, LineTo x2 y2]"
  shows "link_d (translateLink curvedPath chart linkOptions link)
           = Some (curvedPath polyline (series_link_radius linkOptions)) \<and>
         (series_link_radius linkOptions = 0 \<longrightarrow>
            link_d (translateLink (curvedPath_spec rounding) chart linkOptions link)
              = Some polyline) \<and>
         (x1 + x2) / 2 + crispOffset (series_link_lineWidth linkOptions) - 1 < xMiddle \<and>
         xMiddle \<le> (x1 + x2) / 2 + crispOffset (series_link_lineWidth linkOptions) \<and>
         (xMiddle = (x1 + x2) / 2 \<longleftrightarrow>
            frac ((x1 + x2) / 2) = crispOffset (series_link_lineWidth linkOptions))"
proof -
  have d: "link_d (translateLink helper chart linkOptions link)
           = Some (helper polyline (series_link_radius linkOptions))" for helper
    using assms by (simp add: translateLink_def Let_def)
  have sharp: "link_d (translateLink (curvedPath_spec rounding) chart linkOptions link)
                 = Some polyline"
    if "series_link_radius linkOptions = 0"
    using that by (simp add: d curvedPath_spec_def)
  have mid: "(x2 + x1) / 2 = (x1 + x2) / 2"
    by (simp add: add.commute)
  have "real_of_int \<lfloor>(x1 + x2) / 2\<rfloor> \<le> (x1 + x2) / 2"
    and "(x1 + x2) / 2 < real_of_int \<lfloor>(x1 + x2) / 2\<rfloor> + 1"
    by linarith+
  with assms(6) have lower: "(x1 + x2) / 2 + crispOffset (series_link_lineWidth linkOptions) - 1
      < xMiddle"
    and upper: "xMiddle \<le> (x1 + x2) / 2 + crispOffset (series_link_lineWidth linkOptions)"
    by (simp_all add: mid)
  have exact: "xMiddle = (x1 + x2) / 2 \<longleftrightarrow>
      frac ((x1 + x2) / 2) = crispOffset (series_link_lineWidth linkOptions)"
    unfolding assms(6) mid frac_def by linarith
  from d [of curvedPath] sharp lower upper exact show ?thesis by blast
qed

theorem translateLink_default_path_witness:
  "series_link_radius (sampleLinkOptions 1 (Some ''default'') 0) = 0 \<and>
   link_d (translateLink (curvedPath_spec (\<lambda>d r. [])) (sampleChart False)
     (sampleLinkOptions 1 (Some ''default'') 0)
     (sampleLink (Some (sampleBox 0 0 10 10)) (Some (sampleBox 95 40 10 10))))
   = Some [MoveTo (21 / 2) (11 / 2), LineTo (107 / 2) (11 / 2), LineTo (107 / 2) (91 / 2),
           LineTo (191 / 2) (91 / 2)] \<and>
   ((21 / 2 + 191 / 2) / 2 + 1 / 2 - 1 :: real) < 107 / 2 \<and>
   (107 / 2 :: real) \<le> (21 / 2 + 191 / 2) / 2 + 1 / 2"
proof -
  let ?link = "sampleLink (Some (sampleBox 0 0 10 10)) (Some (sampleBox 95 40 10 10))"
  let ?opts = "sampleLinkOptions 1 (Some ''default'') 0"
  let ?poly = "[MoveTo (21 / 2) (11 / 2), LineTo (107 / 2) (11 / 2), LineTo (107 / 2) (91 / 2),
           LineTo (191 / 2) (91 / 2)]"
  have h1: "fromNode_shapeArgs ?link = Some (sampleBox 0 0 10 10)"
    and h2: "toNode_shapeArgs ?link = Some (sampleBox 95 40 10 10)"
    by (simp_all add: sampleLink_def)
  have h3: "linkTypeOf ?opts ?link \<noteq> Some ''straight''"
    and h4: "linkTypeOf ?opts ?link \<noteq> Some ''curved''"
    by (simp_all add: linkTypeOf_def sampleLink_def sampleLinkOptions_def pick2_def)
  have h5: "connectionPoints (sampleChart False) (crispOffset (series_link_lineWidth ?opts))
      (sampleBox 0 0 10 10) (sampleBox 95 40 10 10) = (21 / 2, 11 / 2, 191 / 2, 91 / 2)"
    by (simp add: sampleLinkOptions_def sample_crisp sample_connectionPoints)
  have h6: "(107 / 2 :: real) = real_of_int \<lfloor>(191 / 2 + 21 / 2) / 2 :: real\<rfloor>
      + crispOffset (series_link_lineWidth ?opts)"
    by (simp add: sampleLinkOptions_def sample_crisp)
  have h7: "?poly = ?poly" by simp
  have r: "series_link_radius ?opts = 0"
    by (simp add: sampleLinkOptions_def)
  from translateLink_default_path [OF h1 h2 h3 h4 h5 h6 h7,
      of "curvedPath_spec (\<lambda>d r. [])" "\<lambda>d r. []"] r
  have path: "link_d (translateLink (curvedPath_spec (\<lambda>d r. [])) (sampleChart False) ?opts ?link)
      = Some ?poly"
    by blast
  from path r show ?thesis by simp
qed

text \<open>
  The claim as stated takes \<open>xMiddle\<close> to be the midpoint. With a line width of \<open>1\<close> and
  boxes at \<open>x = 0\<close> (width \<open>10\<close>) and \<open>x = 95\<close>, the connection points are at \<open>10.5\<close> and
  \<open>95.5\<close>, their midpoint is \<open>53\<close>, and the polyline handed to the rounding helper (made
  visible by a helper that returns it) runs through \<open>53.5\<close>.
\<close>

theorem translateLink_midline_counterexample:
  "link_d (translateLink (\<lambda>d r. d) (sampleChart False) (sampleLinkOptions 1 (Some ''default'') 10)
     (sampleLink (Some (sampleBox 0 0 10 10)) (Some (sampleBox 95 40 10 10))))
   = Some [MoveTo (21 / 2) (11 / 2), LineTo (107 / 2) (11 / 2), LineTo (107 / 2) (91 / 2),
           LineTo (191 / 2) (91 / 2)] \<and>
   ((21 / 2 + 191 / 2) / 2 :: real) = 53 \<and> (107 / 2 :: real) \<noteq> 53"
  by (simp add: translateLink_def connectionPoints_def sampleChart_def sampleBox_def
      sampleLink_def sampleLinkOptions_def linkTypeOf_def pick2_def pick_def orZero_def Let_def
      crispOffset_def Math_round_def js_rem_def)

text \<open>
  Claim C8, as amended. The connection points of a link are floored box-edge coordinates
  plus the crisp offset: \<open>y1\<close> and \<open>y2\<close> always, \<open>x1\<close> and \<open>x2\<close> when the chart is not
  inverted. When the chart is inverted, the width of the from-box is subtracted from
  \<open>x1\<close> and the width of the to-box is added to \<open>x2\<close> after the flooring, so that these
  two are an integer plus the crisp offset only for integer widths. The crisp offset is
  \<open>0\<close> when the rounded line width is even and \<open>0.5\<close> when it is odd (\<open>-0.5\<close> when it is
  odd and negative, the remainder taking the sign of the dividend).
\<close>

theorem connectionPoints_crisp:
  "connectionPoints chart (crispOffset linkWidth) fromArgs toArgs = (x1, y1, x2, y2) \<Longrightarrow>
   y1 = real_of_int \<lfloor>orZero (sa_y fromArgs) + orZero (sa_height fromArgs) / 2\<rfloor>
          + crispOffset linkWidth \<and>
   y2 = real_of_int \<lfloor>orZero (sa_y toArgs) + orZero (sa_height toArgs) / 2\<rfloor>
          + crispOffset linkWidth \<and>
   x1 = real_of_int \<lfloor>orZero (sa_x fromArgs) + orZero (sa_width fromArgs)\<rfloor>
          + crispOffset linkWidth
          - (if inverted chart then orZero (sa_width fromArgs) else 0) \<and>
   x2 = real_of_int \<lfloor>orZero (sa_x toArgs)\<rfloor> + crispOffset linkWidth
          + (if inverted chart then orZero (sa_width toArgs) else 0) \<and>
   crispOffset linkWidth =
     (if even (Math_round linkWidth) then 0
      else if 0 < Math_round linkWidth then 1 / 2 else - 1 / 2)"
  using crispOffset_cases [of linkWidth]
  by (auto simp: connectionPoints_def Let_def)

theorem connectionPoints_crisp_witness:
  "connectionPoints (sampleChart False) (crispOffset 1) (sampleBox 0 0 10 10) (sampleBox 95 40 10 10)
     = (21 / 2, 11 / 2, 191 / 2, 91 / 2) \<and>
   (21 / 2 :: real) = real_of_int \<lfloor>(0::real) + 10\<rfloor> + 1 / 2 \<and>
   (191 / 2 :: real) = real_of_int \<lfloor>95::real\<rfloor> + 1 / 2 \<and>
   crispOffset 1 = 1 / 2 \<and> odd (Math_round 1)"
proof -
  have h: "connectionPoints (sampleChart False) (crispOffset 1) (sampleBox 0 0 10 10)
      (sampleBox 95 40 10 10) = (21 / 2, 11 / 2, 191 / 2, 91 / 2)"
    by (simp add: sample_crisp sample_connectionPoints)
  show ?thesis
    using connectionPoints_crisp [OF h] h
    by (simp add: sample_crisp Math_round_def)
qed

text \<open>
  The claim as stated makes every coordinate an integer plus the crisp offset. On an
  inverted chart with a from-box of width \<open>10.5\<close> at \<open>x = 0\<close> and a line width of \<open>1\<close>,
  \<open>x1\<close> is \<open>floor(10.5) + 0.5 - 10.5 = 0\<close>, which is not an integer plus \<open>0.5\<close>.
\<close>

theorem connectionPoints_inverted_counterexample:
  "connectionPoints (sampleChart True) (crispOffset 1)
     (sampleBox 0 0 (21 / 2) 10) (sampleBox 95 40 10 10) = (0, 11 / 2, 211 / 2, 91 / 2) \<and>
   crispOffset 1 = 1 / 2 \<and>
   real_of_int \<lfloor>(0::real) - 1 / 2\<rfloor> \<noteq> 0 - 1 / 2"
  by (simp add: connectionPoints_def sampleChart_def sampleBox_def orZero_def Let_def
      crispOffset_def Math_round_def js_rem_def)

section \<open>Properties of the list of links\<close>

lemma indexed_iff:
  "indexed store links \<longleftrightarrow> (\<forall>i < length links. link_index (store ! (links ! i)) = Some i)"
proof
  assume a: "indexed store links"
  show "\<forall>i < length links. link_index (store ! (links ! i)) = Some i"
  proof (intro allI impI)
    fix i assume i: "i < length links"
    from a have "map (\<lambda>r. link_index (store ! r)) links ! i = map Some [0..<length links] ! i"
      unfolding indexed_def by (rule arg_cong)
    with i show "link_index (store ! (links ! i)) = Some i"
      by (simp only: nth_map length_upt diff_zero nth_upt add_0)
  qed
next
  assume a: "\<forall>i < length links. link_index (store ! (links ! i)) = Some i"
  show "indexed store links"
    unfolding indexed_def
  proof (rule nth_equalityI)
    show "length (map (\<lambda>r. link_index (store ! r)) links) = length (map Some [0..<length links])"
      by simp
  next
    fix i assume "i < length (map (\<lambda>r. link_index (store ! r)) links)"
    then have i: "i < length links" by simp
    with a show "map (\<lambda>r. link_index (store ! r)) links ! i = map Some [0..<length links] ! i"
      by (simp only: nth_map length_upt diff_zero nth_upt add_0)
  qed
qed

lemma linkRefs_Cons:
  "linkRefs (p # ps) = (case linkToParent p of None \<Rightarrow> [] | Some r \<Rightarrow> [r]) @ linkRefs ps"
  by (simp add: linkRefs_def)

lemma linkRefs_Nil: "linkRefs [] = []"
  by (simp add: linkRefs_def)

subsection \<open>One step\<close>

lemma step_new:
  assumes "truthy (node_parent (point_node p))" and "linkToParent p = None"
  shows "getLinksPoint lc s p =
    (s\<lparr>ls_links := ls_links s @ [length (ls_store s)],
       ls_store := ls_store s @
         [(lc_init lc (point_options p) p)\<lparr>link_index := Some (length (ls_links s))\<rparr>]\<rparr>,
     p\<lparr>linkToParent := Some (length (ls_store s))\<rparr>)"
  using assms by (simp add: getLinksPoint_def Let_def)

lemma step_reuse:
  assumes "truthy (node_parent (point_node p))" and "linkToParent p = Some r"
    and "r < length (ls_store s)"
  shows "getLinksPoint lc s p =
    (s\<lparr>ls_links := ls_links s @ [r],
       ls_store := (ls_store s)
         [r := (lc_update lc (ls_store s ! r) (point_options p))
                 \<lparr>link_index := Some (length (ls_links s))\<rparr>]\<rparr>,
     p)"
  using assms by (simp add: getLinksPoint_def Let_def)

lemma step_none:
  assumes "\<not> truthy (node_parent (point_node p))" and "linkToParent p = None"
  shows "getLinksPoint lc s p = (s, p)"
  using assms by (simp add: getLinksPoint_def)

lemma step_drop:
  assumes "\<not> truthy (node_parent (point_node p))" and "linkToParent p = Some r"
  shows "getLinksPoint lc s p =
    (s\<lparr>ls_seriesLinks := spliceFrom (link_index (ls_store s ! r)) (ls_seriesLinks s),
       ls_store := (ls_store s)[r := lc_destroy lc (ls_store s ! r)]\<rparr>,
     p\<lparr>linkToParent := None\<rparr>)"
  using assms by (simp add: getLinksPoint_def)

lemma step_length_store:
  "length (ls_store s) \<le> length (ls_store (fst (getLinksPoint lc s p)))"
  by (simp add: getLinksPoint_def Let_def split: option.splits)

lemma step_frame:
  assumes "r < length (ls_store s)" and "linkToParent p \<noteq> Some r"
  shows "ls_store (fst (getLinksPoint lc s p)) ! r = ls_store s ! r"
  using assms
  by (auto simp: getLinksPoint_def Let_def nth_append split: option.splits)

lemma step_links:
  "ls_links (fst (getLinksPoint lc s p)) =
     ls_links s @
       (if truthy (node_parent (point_node p))
        then [case linkToParent p of None \<Rightarrow> length (ls_store s) | Some r \<Rightarrow> r]
        else [])"
  by (simp add: getLinksPoint_def Let_def split: option.splits)

lemma step_seriesLinks:
  "\<exists>k. ls_seriesLinks (fst (getLinksPoint lc s p)) = take k (ls_seriesLinks s)"
proof (cases "\<not> truthy (node_parent (point_node p)) \<and> linkToParent p \<noteq> None")
  case True
  then show ?thesis by (auto simp: getLinksPoint_def spliceFrom_def)
next
  case False
  then have "ls_seriesLinks (fst (getLinksPoint lc s p)) = take (length (ls_seriesLinks s)) (ls_seriesLinks s)"
    by (auto simp: getLinksPoint_def Let_def split: option.splits)
  then show ?thesis by blast
qed

lemma step_point:
  "linkToParent (snd (getLinksPoint lc s p)) =
     (if truthy (node_parent (point_node p))
      then Some (case linkToParent p of None \<Rightarrow> length (ls_store s) | Some r \<Rightarrow> r)
      else None)"
  "point_node (snd (getLinksPoint lc s p)) = point_node p"
  "hidden (snd (getLinksPoint lc s p)) = hidden p"
  by (simp_all add: getLinksPoint_def Let_def split: option.splits)

subsection \<open>The loop\<close>

lemma loop_Cons:
  "fst (forEachData lc s (p # ps)) = fst (forEachData lc (fst (getLinksPoint lc s p)) ps)"
  "snd (forEachData lc s (p # ps)) =
     snd (getLinksPoint lc s p) # snd (forEachData lc (fst (getLinksPoint lc s p)) ps)"
  by (simp_all add: split_beta Let_def)

lemma loop_length: "length (snd (forEachData lc s ps)) = length ps"
  by (induction ps arbitrary: s) (simp_all add: split_beta Let_def)

lemma loop_length_store:
  "length (ls_store s) \<le> length (ls_store (fst (forEachData lc s ps)))"
proof (induction ps arbitrary: s)
  case Nil
  then show ?case by simp
next
  case (Cons p ps)
  from step_length_store [of s lc p] Cons.IH [of "fst (getLinksPoint lc s p)"]
  show ?case by (simp only: loop_Cons)
qed

lemma loop_links_grow:
  "set (ls_links s) \<subseteq> set (ls_links (fst (forEachData lc s ps)))"
proof (induction ps arbitrary: s)
  case Nil
  then show ?case by simp
next
  case (Cons p ps)
  have "set (ls_links s) \<subseteq> set (ls_links (fst (getLinksPoint lc s p)))"
    by (simp add: step_links)
  with Cons.IH [of "fst (getLinksPoint lc s p)"] show ?case
    by (simp only: loop_Cons)
qed

lemma loop_seriesLinks:
  "\<exists>k. ls_seriesLinks (fst (forEachData lc s ps)) = take k (ls_seriesLinks s)"
proof (induction ps arbitrary: s)
  case Nil
  have "ls_seriesLinks s = take (length (ls_seriesLinks s)) (ls_seriesLinks s)" by simp
  then show ?case by (simp del: take_all) blast
next
  case (Cons p ps)
  from step_seriesLinks [of lc s p] obtain k
    where k: "ls_seriesLinks (fst (getLinksPoint lc s p)) = take k (ls_seriesLinks s)" ..
  from Cons.IH [of "fst (getLinksPoint lc s p)"] obtain j
    where "ls_seriesLinks (fst (forEachData lc (fst (getLinksPoint lc s p)) ps))
           = take j (ls_seriesLinks (fst (getLinksPoint lc s p)))" ..
  with k have "ls_seriesLinks (fst (forEachData lc s (p # ps))) = take (min j k) (ls_seriesLinks s)"
    by (simp only: loop_Cons take_take)
  then show ?case ..
qed

lemma loop_frame:
  "r < length (ls_store s) \<Longrightarrow> r \<notin> set (linkRefs ps) \<Longrightarrow>
   ls_store (fst (forEachData lc s ps)) ! r = ls_store s ! r"
proof (induction ps arbitrary: s)
  case Nil
  then show ?case by simp
next
  case (Cons p ps)
  from Cons.prems(2) have p: "linkToParent p \<noteq> Some r" and rest: "r \<notin> set (linkRefs ps)"
    by (auto simp: linkRefs_Cons split: option.splits)
  from Cons.prems(1) step_length_store [of s lc p]
  have "r < length (ls_store (fst (getLinksPoint lc s p)))" by simp
  from Cons.IH [OF this rest] step_frame [OF Cons.prems(1) p]
  show ?case by (simp only: loop_Cons)
qed

lemma loop_links_origin:
  "r \<in> set (ls_links (fst (forEachData lc s ps))) \<Longrightarrow>
   r \<in> set (ls_links s) \<or> length (ls_store s) \<le> r \<or>
   (\<exists>p \<in> set ps. truthy (node_parent (point_node p)) \<and> linkToParent p = Some r)"
proof (induction ps arbitrary: s)
  case Nil
  then show ?case by simp
next
  case (Cons p ps)
  let ?s1 = "fst (getLinksPoint lc s p)"
  from Cons.prems have "r \<in> set (ls_links (fst (forEachData lc ?s1 ps)))"
    by (simp only: loop_Cons)
  from Cons.IH [OF this] consider
    "r \<in> set (ls_links ?s1)" | "length (ls_store ?s1) \<le> r"
    | "\<exists>p \<in> set ps. truthy (node_parent (point_node p)) \<and> linkToParent p = Some r"
    by blast
  then show ?case
  proof cases
    case 1
    then show ?thesis
      by (auto simp: step_links split: if_splits option.splits)
  next
    case 2
    with step_length_store [of s lc p] show ?thesis by simp
  next
    case 3
    then show ?thesis by auto
  qed
qed

lemma indexed_append_fresh:
  assumes "indexed st links" and "list_all (\<lambda>r. r < length st) links"
    and "link_index new = Some (length links)"
  shows "indexed (st @ [new]) (links @ [length st])"
  unfolding indexed_iff
proof (intro allI impI)
  fix i assume i: "i < length (links @ [length st])"
  show "link_index ((st @ [new]) ! ((links @ [length st]) ! i)) = Some i"
  proof (cases "i < length links")
    case True
    with assms(2) have "links ! i < length st" by (simp add: list_all_length)
    with True assms(1) show ?thesis by (simp add: nth_append indexed_iff)
  next
    case False
    with i have "i = length links" by simp
    with assms(3) show ?thesis by (simp add: nth_append)
  qed
qed

lemma indexed_update_other:
  assumes "indexed st links" and "r \<notin> set links"
  shows "indexed (st[r := v]) links"
  unfolding indexed_iff
proof (intro allI impI)
  fix i assume i: "i < length links"
  with assms(2) have "links ! i \<noteq> r" by (metis nth_mem)
  with i assms(1) show "link_index (st[r := v] ! (links ! i)) = Some i"
    by (simp add: indexed_iff)
qed

lemma indexed_append_reused:
  assumes "indexed st links" and "r \<notin> set links" and "r < length st"
    and "link_index v = Some (length links)"
  shows "indexed (st[r := v]) (links @ [r])"
  unfolding indexed_iff
proof (intro allI impI)
  fix i assume i: "i < length (links @ [r])"
  show "link_index (st[r := v] ! ((links @ [r]) ! i)) = Some i"
  proof (cases "i < length links")
    case True
    with indexed_update_other [OF assms(1,2), of v] show ?thesis
      by (simp add: nth_append indexed_iff)
  next
    case False
    with i have "i = length links" by simp
    with assms(3,4) show ?thesis by (simp add: nth_append)
  qed
qed

lemma step_inv:
  assumes "links_inv s (p # ps)"
  shows "links_inv (fst (getLinksPoint lc s p)) ps"
proof -
  let ?st = "ls_store s" and ?links = "ls_links s"
  from assms have ix: "indexed ?st ?links"
    and rng: "list_all (\<lambda>r. r < length ?st) ?links"
    and ris: "list_all (\<lambda>r. r < length ?st) (linkRefs (p # ps))"
    and own: "distinct (linkRefs (p # ps))"
    and dis: "list_all (\<lambda>r. r \<notin> set ?links) (linkRefs (p # ps))"
    by (simp_all add: links_inv_def refs_in_store_def own_links_def)
  have ris': "list_all (\<lambda>r. r < length ?st) (linkRefs ps)"
    and own': "distinct (linkRefs ps)"
    and dis': "list_all (\<lambda>r. r \<notin> set ?links) (linkRefs ps)"
    using ris own dis by (simp_all add: linkRefs_Cons)
  show ?thesis
  proof (cases "truthy (node_parent (point_node p))")
    case True
    show ?thesis
    proof (cases "linkToParent p")
      case None
      note eq = step_new [OF True None, of lc s]
      have "indexed (?st @ [(lc_init lc (point_options p) p)\<lparr>link_index := Some (length ?links)\<rparr>])
              (?links @ [length ?st])"
        by (rule indexed_append_fresh [OF ix rng]) simp
      moreover have "list_all (\<lambda>r. r < Suc (length ?st)) (?links @ [length ?st])"
        using rng by (simp add: list_all_iff less_Suc_eq)
      moreover have "list_all (\<lambda>r. r < Suc (length ?st)) (linkRefs ps)"
        using ris' by (simp add: list_all_iff less_Suc_eq)
      moreover have "list_all (\<lambda>r. r \<notin> set (?links @ [length ?st])) (linkRefs ps)"
        using ris' dis' by (auto simp: list_all_iff)
      ultimately show ?thesis
        using own' by (simp add: eq links_inv_def refs_in_store_def own_links_def)
    next
      case (Some r)
      from ris Some have r: "r < length ?st" by (simp add: linkRefs_Cons)
      from dis Some have nl: "r \<notin> set ?links" by (simp add: linkRefs_Cons)
      from own Some have nr: "r \<notin> set (linkRefs ps)" by (simp add: linkRefs_Cons)
      note eq = step_reuse [OF True Some r, of lc]
      let ?v = "(lc_update lc (?st ! r) (point_options p))\<lparr>link_index := Some (length ?links)\<rparr>"
      have "indexed (?st[r := ?v]) (?links @ [r])"
        by (rule indexed_append_reused [OF ix nl r]) simp
      moreover have "list_all (\<lambda>q. q < length ?st) (?links @ [r])"
        using rng r by simp
      moreover have "list_all (\<lambda>q. q \<notin> set (?links @ [r])) (linkRefs ps)"
        using dis' nr by (auto simp: list_all_iff)
      ultimately show ?thesis
        using own' ris' by (simp add: eq links_inv_def refs_in_store_def own_links_def)
    qed
  next
    case False
    show ?thesis
    proof (cases "linkToParent p")
      case None
      from step_none [OF False None, of lc s] ix rng ris' own' dis' show ?thesis
        by (simp add: links_inv_def refs_in_store_def own_links_def)
    next
      case (Some r)
      from dis Some have nl: "r \<notin> set ?links" by (simp add: linkRefs_Cons)
      note eq = step_drop [OF False Some, of lc s]
      from indexed_update_other [OF ix nl] rng ris' own' dis' show ?thesis
        by (simp add: eq links_inv_def refs_in_store_def own_links_def)
    qed
  qed
qed

lemma loop_inv:
  "links_inv s ps \<Longrightarrow> links_inv (fst (forEachData lc s ps)) []"
proof (induction ps arbitrary: s)
  case Nil
  then show ?case by simp
next
  case (Cons p ps)
  from Cons.IH [OF step_inv [OF Cons.prems]] show ?case
    by (simp only: loop_Cons)
qed

lemma getLinks_parts:
  "getLinks lc series store =
     (ls_links (fst (forEachData lc
         \<lparr>ls_links = [], ls_seriesLinks = series_links series, ls_store = store\<rparr>
         (series_data series))),
      series\<lparr>series_data := snd (forEachData lc
         \<lparr>ls_links = [], ls_seriesLinks = series_links series, ls_store = store\<rparr>
         (series_data series)),
        series_links := ls_seriesLinks (fst (forEachData lc
         \<lparr>ls_links = [], ls_seriesLinks = series_links series, ls_store = store\<rparr>
         (series_data series)))\<rparr>,
      ls_store (fst (forEachData lc
         \<lparr>ls_links = [], ls_seriesLinks = series_links series, ls_store = store\<rparr>
         (series_data series))))"
  by (simp add: getLinks_def split_beta Let_def)


lemma loop_point:
  "i < length ps \<Longrightarrow>
   point_node (snd (forEachData lc s ps) ! i) = point_node (ps ! i) \<and>
   hidden (snd (forEachData lc s ps) ! i) = hidden (ps ! i) \<and>
   (if truthy (node_parent (point_node (ps ! i)))
    then \<exists>r. linkToParent (snd (forEachData lc s ps) ! i) = Some r \<and>
             r \<in> set (ls_links (fst (forEachData lc s ps)))
    else linkToParent (snd (forEachData lc s ps) ! i) = None)"
proof (induction ps arbitrary: s i)
  case Nil
  then show ?case by simp
next
  case (Cons p ps)
  let ?s1 = "fst (getLinksPoint lc s p)"
  show ?case
  proof (cases i)
    case 0
    have "truthy (node_parent (point_node p)) \<Longrightarrow>
        (case linkToParent p of None \<Rightarrow> length (ls_store s) | Some r \<Rightarrow> r) \<in> set (ls_links ?s1)"
      by (simp add: step_links)
    with loop_links_grow [of ?s1 lc ps] 0 show ?thesis
      by (auto simp: loop_Cons step_point simp del: forEachData.simps)
  next
    case (Suc j)
    with Cons.prems have "j < length ps" by simp
    from Cons.IH [OF this, of ?s1] Suc show ?thesis
      by (simp add: loop_Cons del: forEachData.simps)
  qed
qed

lemma spliceFrom_removes:
  assumes "placed_at_index s r"
  shows "r \<notin> set (spliceFrom (link_index (ls_store s ! r)) (ls_seriesLinks s))"
proof
  assume "r \<in> set (spliceFrom (link_index (ls_store s ! r)) (ls_seriesLinks s))"
  then obtain k where k: "link_index (ls_store s ! r) = Some k"
    and "r \<in> set (take k (ls_seriesLinks s))"
    by (cases "link_index (ls_store s ! r)") (simp_all add: spliceFrom_def)
  then obtain j where j: "j < length (take k (ls_seriesLinks s))"
    and jr: "take k (ls_seriesLinks s) ! j = r"
    by (auto simp: in_set_conv_nth)
  from j have "j < k" and "j < length (ls_seriesLinks s)" by simp_all
  with jr assms have "link_index (ls_store s ! r) = Some j"
    by (simp add: placed_at_index_def)
  with k \<open>j < k\<close> show False by simp
qed

lemma step_placed_at_index:
  assumes "placed_at_index s r" and "r < length (ls_store s)" and "linkToParent p \<noteq> Some r"
  shows "placed_at_index (fst (getLinksPoint lc s p)) r"
proof -
  from step_seriesLinks [of lc s p] obtain k
    where k: "ls_seriesLinks (fst (getLinksPoint lc s p)) = take k (ls_seriesLinks s)" ..
  from step_frame [OF assms(2,3), of lc]
  have st: "ls_store (fst (getLinksPoint lc s p)) ! r = ls_store s ! r" .
  show ?thesis
    unfolding placed_at_index_def k st
    using assms(1) by (simp add: placed_at_index_def)
qed

lemma loop_not_in_seriesLinks:
  "r \<notin> set (ls_seriesLinks s) \<Longrightarrow> r \<notin> set (ls_seriesLinks (fst (forEachData lc s ps)))"
proof -
  from loop_seriesLinks [of lc s ps] obtain k
    where "ls_seriesLinks (fst (forEachData lc s ps)) = take k (ls_seriesLinks s)" ..
  moreover assume "r \<notin> set (ls_seriesLinks s)"
  ultimately show ?thesis by (metis in_set_takeD)
qed

lemma loop_removed:
  assumes "i < length ps"
    and "\<not> truthy (node_parent (point_node (ps ! i)))"
    and "linkToParent (ps ! i) = Some r"
    and "refs_in_store ps (ls_store s)" and "own_links ps"
    and "r \<notin> set (ls_links s)" and "placed_at_index s r"
  shows "ls_store (fst (forEachData lc s ps)) ! r = lc_destroy lc (ls_store s ! r) \<and>
         r \<notin> set (ls_links (fst (forEachData lc s ps))) \<and>
         r \<notin> set (ls_seriesLinks (fst (forEachData lc s ps)))"
  using assms
proof (induction ps arbitrary: s i)
  case Nil
  then show ?case by simp
next
  case (Cons p ps)
  let ?s1 = "fst (getLinksPoint lc s p)"
  from Cons.prems(4) have ris: "list_all (\<lambda>q. q < length (ls_store s)) (linkRefs (p # ps))"
    by (simp add: refs_in_store_def)
  from Cons.prems(5) have own: "distinct (linkRefs (p # ps))"
    by (simp add: own_links_def)
  have ris': "refs_in_store ps (ls_store ?s1)"
    unfolding refs_in_store_def list_all_iff
  proof
    fix q assume "q \<in> set (linkRefs ps)"
    with ris have "q < length (ls_store s)"
      by (simp add: linkRefs_Cons list_all_iff)
    with step_length_store [of s lc p] show "q < length (ls_store ?s1)"
      by (rule less_le_trans [rotated])
  qed
  have own': "own_links ps"
    using own by (simp add: own_links_def linkRefs_Cons)
  show ?case
  proof (cases i)
    case 0
    with Cons.prems(2,3) have np: "\<not> truthy (node_parent (point_node p))"
      and lp: "linkToParent p = Some r" by simp_all
    note eq = step_drop [OF np lp, of lc s]
    from ris lp have r: "r < length (ls_store s)" by (simp add: linkRefs_Cons)
    from own lp have nr: "r \<notin> set (linkRefs ps)" by (simp add: linkRefs_Cons)
    have r1: "r < length (ls_store ?s1)" using r by (simp add: eq)
    have "ls_store (fst (forEachData lc ?s1 ps)) ! r = ls_store ?s1 ! r"
      by (rule loop_frame [OF r1 nr])
    also have "\<dots> = lc_destroy lc (ls_store s ! r)"
      using r by (simp add: eq)
    finally have a: "ls_store (fst (forEachData lc ?s1 ps)) ! r = lc_destroy lc (ls_store s ! r)" .
    have b: "r \<notin> set (ls_links (fst (forEachData lc ?s1 ps)))"
    proof
      assume "r \<in> set (ls_links (fst (forEachData lc ?s1 ps)))"
      from loop_links_origin [OF this] consider "r \<in> set (ls_links ?s1)"
        | "length (ls_store ?s1) \<le> r"
        | "\<exists>q \<in> set ps. truthy (node_parent (point_node q)) \<and> linkToParent q = Some r"
        by blast
      then show False
      proof cases
        case 1
        with Cons.prems(6) show False by (simp add: eq)
      next
        case 2
        with r1 show False by simp
      next
        case 3
        then obtain q where "q \<in> set ps" and "linkToParent q = Some r" by blast
        then have "r \<in> set (linkRefs ps)"
          by (force simp: linkRefs_def)
        with nr show False ..
      qed
    qed
    have "r \<notin> set (ls_seriesLinks ?s1)"
      using spliceFrom_removes [OF Cons.prems(7)] by (simp add: eq)
    then have c: "r \<notin> set (ls_seriesLinks (fst (forEachData lc ?s1 ps)))"
      by (rule loop_not_in_seriesLinks)
    from a b c show ?thesis by (simp only: loop_Cons) simp
  next
    case (Suc j)
    with Cons.prems have j: "j < length ps"
      and np: "\<not> truthy (node_parent (point_node (ps ! j)))"
      and lp: "linkToParent (ps ! j) = Some r" by simp_all
    from j lp have rin: "r \<in> set (linkRefs ps)"
      by (force simp: linkRefs_def in_set_conv_nth)
    with own have pr: "linkToParent p \<noteq> Some r"
      by (auto simp: linkRefs_Cons)
    from rin ris have r: "r < length (ls_store s)"
      by (simp add: linkRefs_Cons list_all_iff)
    have st: "ls_store ?s1 ! r = ls_store s ! r"
      by (rule step_frame [OF r pr])
    have nl: "r \<notin> set (ls_links ?s1)"
      using Cons.prems(6) pr r by (auto simp: step_links split: option.splits)
    have pl: "placed_at_index ?s1 r"
      by (rule step_placed_at_index [OF Cons.prems(7) r pr])
    from Cons.IH [OF j np lp ris' own' nl pl] st show ?thesis
      by (simp only: loop_Cons) simp
  qed
qed

lemma indexed_placed:
  "indexed store slinks \<Longrightarrow>
   placed_at_index \<lparr>ls_links = [], ls_seriesLinks = slinks, ls_store = store\<rparr> r"
  by (auto simp: placed_at_index_def indexed_iff)


lemmas sample_defs = sampleSeries_def sampleStore_def sampleLinkClass_def sampleLink_def
  samplePoint_def circleMarker_def

lemma sample_getLinks:
  "fst (getLinks sampleLinkClass sampleSeries sampleStore) = [1, 2]"
  "map (\<lambda>p. (point_id p, hidden p, truthy (node_parent (point_node p)), linkToParent p))
     (series_data (fst (snd (getLinks sampleLinkClass sampleSeries sampleStore))))
   = [(''A'', False, False, None), (''B'', True, True, Some 1), (''C'', False, True, Some 2)]"
  "series_links (fst (snd (getLinks sampleLinkClass sampleSeries sampleStore))) = []"
  by (simp_all add: getLinks_def getLinksPoint_def truthy_def spliceFrom_def Let_def sample_defs)

lemma sample_wf:
  "refs_in_store (series_data sampleSeries) sampleStore"
  "own_links (series_data sampleSeries)"
  "indexed sampleStore (series_links sampleSeries)"
  by (simp_all add: refs_in_store_def own_links_def indexed_def linkRefs_def sample_defs)

text \<open>
  Claim C10. After \<open>getLinks\<close> returns, every link in the returned array has its \<open>index\<close>
  equal to its position in that array: \<open>links[i].index = i\<close> for every valid \<open>i\<close>, whether
  the link was created in this pass or reused and updated in place. The links are
  objects of the store; every reference of a point designates one, and no two points
  share a link object (\<open>getLinks\<close> creates one link per point and leaves the series in
  that state, see \<open>getLinks_keeps_ownership\<close> below).
\<close>

theorem getLinks_index_is_position:
  assumes "refs_in_store (series_data series) store"
    and "own_links (series_data series)"
    and "getLinks linkClass series store = (links, series1, store1)"
    and "i < length links"
  shows "link_index (store1 ! (links ! i)) = Some i"
proof -
  let ?s0 = "\<lparr>ls_links = [], ls_seriesLinks = series_links series, ls_store = store\<rparr>"
  have "links_inv ?s0 (series_data series)"
    using assms(1,2) by (simp add: links_inv_def indexed_def list_all_iff)
  then have "links_inv (fst (forEachData linkClass ?s0 (series_data series))) []"
    by (rule loop_inv)
  moreover from assms(3) have "links = ls_links (fst (forEachData linkClass ?s0 (series_data series)))"
    and "store1 = ls_store (fst (forEachData linkClass ?s0 (series_data series)))"
    by (simp_all add: getLinks_parts)
  ultimately have "indexed store1 links"
    by (simp add: links_inv_def)
  with assms(4) show ?thesis by (simp add: indexed_iff)
qed

theorem getLinks_index_is_position_witness:
  "fst (getLinks sampleLinkClass sampleSeries sampleStore) = [1, 2] \<and>
   map (\<lambda>r. link_index (snd (snd (getLinks sampleLinkClass sampleSeries sampleStore)) ! r)) [1, 2]
     = [Some 0, Some 1]"
proof -
  let ?g = "getLinks sampleLinkClass sampleSeries sampleStore"
  have g: "?g = (fst ?g, fst (snd ?g), snd (snd ?g))" by simp
  have l: "fst ?g = [1, 2]" by (rule sample_getLinks(1))
  have i0: "0 < length (fst ?g)" and i1: "1 < length (fst ?g)" by (simp_all add: l)
  from getLinks_index_is_position [OF sample_wf(1,2) g i0]
    getLinks_index_is_position [OF sample_wf(1,2) g i1] l
  show ?thesis by simp
qed

text \<open>
  Claim C4, as amended. After \<open>getLinks\<close> runs, a point carries a link to its parent, and
  that link is in the returned list, if and only if the point's node has a parent
  (\<open>point.node.parent\<close> is truthy), whether or not the point is hidden by collapse. A point
  whose node has no parent carries no link afterwards; its previous link, if it had one,
  is destroyed and is neither in the returned list nor in \<open>series.links\<close> any more, given
  that every point owns its link object and \<open>series.links\<close> is indexed as the previous
  pass left it.
\<close>

theorem getLinks_link_iff_parent:
  assumes "getLinks linkClass series store = (links, series1, store1)"
    and "i < length (series_data series)"
  shows "length (series_data series1) = length (series_data series) \<and>
    point_node (series_data series1 ! i) = point_node (series_data series ! i) \<and>
    ((\<exists>r. linkToParent (series_data series1 ! i) = Some r \<and> r \<in> set links) \<longleftrightarrow>
       truthy (node_parent (point_node (series_data series ! i)))) \<and>
    (\<not> truthy (node_parent (point_node (series_data series ! i))) \<longrightarrow>
       linkToParent (series_data series1 ! i) = None \<and>
       (\<forall>r. linkToParent (series_data series ! i) = Some r \<and>
            refs_in_store (series_data series) store \<and> own_links (series_data series) \<and>
            indexed store (series_links series) \<longrightarrow>
            store1 ! r = lc_destroy linkClass (store ! r) \<and>
            r \<notin> set links \<and> r \<notin> set (series_links series1)))"
proof -
  let ?s0 = "\<lparr>ls_links = [], ls_seriesLinks = series_links series, ls_store = store\<rparr>"
  let ?ps = "series_data series"
  let ?res = "forEachData linkClass ?s0 ?ps"
  from assms(1) have links: "links = ls_links (fst ?res)"
    and data: "series_data series1 = snd ?res"
    and slinks: "series_links series1 = ls_seriesLinks (fst ?res)"
    and store1: "store1 = ls_store (fst ?res)"
    by (auto simp: getLinks_parts)
  note pt = loop_point [OF assms(2), of linkClass ?s0]
  have len: "length (series_data series1) = length ?ps"
    by (simp add: data loop_length)
  have node: "point_node (series_data series1 ! i) = point_node (?ps ! i)"
    using pt by (simp add: data)
  have iff: "(\<exists>r. linkToParent (series_data series1 ! i) = Some r \<and> r \<in> set links) \<longleftrightarrow>
       truthy (node_parent (point_node (?ps ! i)))"
    using pt by (auto simp: data links split: if_splits)
  have none: "linkToParent (series_data series1 ! i) = None"
    if "\<not> truthy (node_parent (point_node (?ps ! i)))"
    using pt that by (simp add: data)
  have removed: "store1 ! r = lc_destroy linkClass (store ! r) \<and>
            r \<notin> set links \<and> r \<notin> set (series_links series1)"
    if np: "\<not> truthy (node_parent (point_node (?ps ! i)))"
      and h: "linkToParent (?ps ! i) = Some r \<and>
            refs_in_store ?ps store \<and> own_links ?ps \<and> indexed store (series_links series)"
    for r
  proof -
    from h have lp: "linkToParent (?ps ! i) = Some r"
      and ris: "refs_in_store ?ps (ls_store ?s0)" and own: "own_links ?ps"
      and ix: "indexed store (series_links series)" by simp_all
    have nl: "r \<notin> set (ls_links ?s0)" by simp
    from loop_removed [OF assms(2) np lp ris own nl indexed_placed [OF ix], of linkClass]
    show ?thesis by (simp add: links slinks store1)
  qed
  from len node iff none removed show ?thesis by blast
qed

theorem getLinks_link_iff_parent_witness:
  "truthy (node_parent (point_node (series_data sampleSeries ! 1))) \<and>
   (\<exists>r. linkToParent
          (series_data (fst (snd (getLinks sampleLinkClass sampleSeries sampleStore))) ! 1)
          = Some r \<and>
        r \<in> set (fst (getLinks sampleLinkClass sampleSeries sampleStore))) \<and>
   linkToParent (series_data sampleSeries ! 0) = Some 0 \<and>
   linkToParent (series_data (fst (snd (getLinks sampleLinkClass sampleSeries sampleStore))) ! 0)
     = None \<and>
   snd (snd (getLinks sampleLinkClass sampleSeries sampleStore)) ! 0
     = lc_destroy sampleLinkClass (sampleStore ! 0) \<and>
   0 \<notin> set (fst (getLinks sampleLinkClass sampleSeries sampleStore)) \<and>
   0 \<notin> set (series_links (fst (snd (getLinks sampleLinkClass sampleSeries sampleStore))))"
proof -
  let ?g = "getLinks sampleLinkClass sampleSeries sampleStore"
  have g: "?g = (fst ?g, fst (snd ?g), snd (snd ?g))" by simp
  have i0: "0 < length (series_data sampleSeries)" and i1: "1 < length (series_data sampleSeries)"
    by (simp_all add: sampleSeries_def)
  have p0: "\<not> truthy (node_parent (point_node (series_data sampleSeries ! 0)))"
    "linkToParent (series_data sampleSeries ! 0) = Some 0"
    and p1: "truthy (node_parent (point_node (series_data sampleSeries ! 1)))"
    by (simp_all add: truthy_def sample_defs)
  from getLinks_link_iff_parent [OF g i1] p1
  have a: "\<exists>r. linkToParent (series_data (fst (snd ?g)) ! 1) = Some r \<and> r \<in> set (fst ?g)"
    by blast
  from getLinks_link_iff_parent [OF g i0] p0 sample_wf
  have b: "linkToParent (series_data (fst (snd ?g)) ! 0) = None"
    "snd (snd ?g) ! 0 = lc_destroy sampleLinkClass (sampleStore ! 0)"
    "0 \<notin> set (fst ?g)" "0 \<notin> set (series_links (fst (snd ?g)))"
    by blast+
  from a b p0(2) p1 show ?thesis by blast
qed

text \<open>
  The claim as stated gives a link only to a point that is not hidden by collapse. In the
  sample series \<open>B\<close> has the parent \<open>A\<close> and is hidden; after \<open>getLinks\<close> it still carries
  its link \<open>1\<close>, which is the first link of the returned list.
\<close>

theorem hidden_point_keeps_link_counterexample:
  "map (\<lambda>p. (point_id p, hidden p, truthy (node_parent (point_node p)), linkToParent p))
     (series_data (fst (snd (getLinks sampleLinkClass sampleSeries sampleStore))))
   = [(''A'', False, False, None), (''B'', True, True, Some 1), (''C'', False, True, Some 2)] \<and>
   fst (getLinks sampleLinkClass sampleSeries sampleStore) = [1, 2]"
  by (simp add: getLinks_def getLinksPoint_def truthy_def spliceFrom_def Let_def
      sampleSeries_def sampleStore_def sampleLinkClass_def sampleLink_def samplePoint_def
      circleMarker_def)

section \<open>Properties of collapsing and expanding\<close>

lemma update_visible_fields:
  "hidden (update_visible (q\<lparr>hidden := h\<rparr>) v) = h"
  "visible (update_visible (q\<lparr>hidden := h\<rparr>) v) = v"
  "collapsed (update_visible (q\<lparr>hidden := h\<rparr>) v) = collapsed q"
  by (simp_all add: update_visible_def)

lemma collapse_root: "tn_point (collapseTreeFromPoint n h) = tn_point n"
  by (cases n) simp

lemma collapse_sets_hidden:
  "list_all (\<lambda>d. hidden (tn_point d) = h \<and> visible (tn_point d) = (\<not> h))
     (descendants (collapseTreeFromPoint n h))"
  "list_all (\<lambda>d. hidden (tn_point d) = h \<and> visible (tn_point d) = (\<not> h))
     (forestNodes (forEachChild cs h))"
proof (induction n h and cs h rule: collapseTreeFromPoint_forEachChild.induct)
  case (1 p cs hid)
  then show ?case by simp
next
  case (2 hid)
  then show ?case by simp
next
  case (3 cp ccs rest hid)
  let ?q = "update_visible (cp\<lparr>hidden := hid\<rparr>) (\<not> hid)"
  have h: "hidden ?q = hid" by (simp add: update_visible_fields)
  from "3.IH"(1) [OF refl] "3.IH"(2) [OF refl] show ?case
    by (simp add: Let_def h update_visible_fields)
qed

lemma collapse_keeps_collapsed:
  "map (\<lambda>d. collapsed (tn_point d)) (descendants (collapseTreeFromPoint n h))
     = map (\<lambda>d. collapsed (tn_point d)) (descendants n)"
  "map (\<lambda>d. collapsed (tn_point d)) (forestNodes (forEachChild cs h))
     = map (\<lambda>d. collapsed (tn_point d)) (forestNodes cs)"
proof (induction n h and cs h rule: collapseTreeFromPoint_forEachChild.induct)
  case (1 p cs hid)
  then show ?case by simp
next
  case (2 hid)
  then show ?case by simp
next
  case (3 cp ccs rest hid)
  let ?q = "update_visible (cp\<lparr>hidden := hid\<rparr>) (\<not> hid)"
  have h: "hidden ?q = hid" by (simp add: update_visible_fields)
  from "3.IH"(1) [OF refl] "3.IH"(2) [OF refl] show ?case
    by (simp add: Let_def h update_visible_fields)
qed

text \<open>
  Claim C3, as amended. A click toggles the \<open>collapsed\<close> flag of the node's point. After
  a transition to collapsed every descendant of the node has \<open>hidden = true\<close>; after a
  transition to expanded every descendant has \<open>hidden = false\<close>, the descendants of a
  descendant that is itself collapsed included. The \<open>collapsed\<close> flags of the descendants
  are left as they were, and \<open>visible\<close> is set to the negation of \<open>hidden\<close>.
\<close>

theorem click_hides_or_shows_all:
  "(\<forall>d \<in> set (descendants (click node)).
      hidden (tn_point d) = (\<not> collapsed (tn_point node)) \<and>
      visible (tn_point d) = collapsed (tn_point node)) \<and>
   collapsed (tn_point (click node)) = (\<not> collapsed (tn_point node)) \<and>
   map (\<lambda>d. collapsed (tn_point d)) (descendants (click node))
     = map (\<lambda>d. collapsed (tn_point d)) (descendants node)"
proof -
  let ?p = "(tn_point node)\<lparr>collapsed := \<not> collapsed (tn_point node)\<rparr>"
  let ?n = "TreeNode ?p (tn_children node)"
  have c: "click node = collapseTreeFromPoint ?n (\<not> collapsed (tn_point node))"
    by (simp add: click_def Let_def)
  have d: "descendants ?n = descendants node"
    by (cases node) simp
  have "\<forall>d \<in> set (descendants (click node)).
      hidden (tn_point d) = (\<not> collapsed (tn_point node)) \<and>
      visible (tn_point d) = collapsed (tn_point node)"
    unfolding c
    using collapse_sets_hidden(1) [of "\<not> collapsed (tn_point node)" ?n]
    by (simp add: list_all_iff)
  moreover have "collapsed (tn_point (click node)) = (\<not> collapsed (tn_point node))"
    unfolding c by (simp add: collapse_root)
  moreover have "map (\<lambda>d. collapsed (tn_point d)) (descendants (click node))
     = map (\<lambda>d. collapsed (tn_point d)) (descendants node)"
    unfolding c by (simp only: collapse_keeps_collapsed d)
  ultimately show ?thesis by blast
qed

theorem click_hides_or_shows_all_witness:
  "map flags (descendants sampleTree) = [(''B'', True, True), (''C'', False, True)] \<and>
   collapsed (tn_point sampleTree) \<and>
   list_all (\<lambda>d. \<not> hidden (tn_point d)) (descendants (click sampleTree)) \<and>
   map (\<lambda>d. collapsed (tn_point d)) (descendants (click sampleTree)) = [True, False]"
proof -
  have s: "map flags (descendants sampleTree) = [(''B'', True, True), (''C'', False, True)]"
    "collapsed (tn_point sampleTree)"
    "map (\<lambda>d. collapsed (tn_point d)) (descendants sampleTree) = [True, False]"
    by (simp_all add: sampleTree_def flags_def samplePoint_def)
  show ?thesis
    using click_hides_or_shows_all [of sampleTree] s
    by (simp add: list_all_iff)
qed

text \<open>
  The claim as stated lets a collapsed descendant halt the propagation on expanding. In
  the sample tree \<open>A\<close> and its child \<open>B\<close> are collapsed and \<open>C\<close> is the child of \<open>B\<close>; a
  click on \<open>A\<close> expands it and clears \<open>hidden\<close> on \<open>C\<close> as well, although \<open>B\<close> is still
  collapsed.
\<close>

theorem expand_reaches_below_collapsed_counterexample:
  "map flags (descendants sampleTree) = [(''B'', True, True), (''C'', False, True)] \<and>
   map flags (descendants (click sampleTree)) = [(''B'', True, False), (''C'', False, False)]"
  by (simp add: sampleTree_def flags_def samplePoint_def click_def update_visible_def Let_def)

section \<open>Further properties\<close>

subsection \<open>The scale and the offset on the y axis\<close>

lemma scanPoints_minY:
  "minY e = Num m \<Longrightarrow>
   minY (fst (scanPoints e ps)) = Num (Min (insert m ((\<lambda>q. yPosition (point_node q)) ` set ps)))"
proof (induction ps arbitrary: e m)
  case Nil
  then show ?case by simp
next
  case (Cons p ps)
  let ?y = "yPosition (point_node p)"
  let ?ys = "(\<lambda>q. yPosition (point_node q)) ` set ps"
  have fin: "finite ?ys" by simp
  from Cons.prems have "minY (fst (scanPoint e p)) = Num (min ?y m)"
    by (simp add: scanPoint_extremes min_def)
  from Cons.IH [OF this]
  have "minY (fst (scanPoints e (p # ps))) = Num (Min (insert (min ?y m) ?ys))"
    by (simp only: scanPoints_Cons)
  also have "Min (insert (min ?y m) ?ys) = Min (insert m (insert ?y ?ys))"
    using fin by (cases "?ys = {}") (simp_all add: min.commute min.left_commute min.assoc)
  finally show ?case by simp
qed

lemma scanPoints_maxY:
  "maxY e = Num m \<Longrightarrow>
   maxY (fst (scanPoints e ps)) = Num (Max (insert m ((\<lambda>q. yPosition (point_node q)) ` set ps)))"
proof (induction ps arbitrary: e m)
  case Nil
  then show ?case by simp
next
  case (Cons p ps)
  let ?y = "yPosition (point_node p)"
  let ?ys = "(\<lambda>q. yPosition (point_node q)) ` set ps"
  have fin: "finite ?ys" by simp
  from Cons.prems have "maxY (fst (scanPoint e p)) = Num (max ?y m)"
    by (simp add: scanPoint_extremes max_def)
  from Cons.IH [OF this]
  have "maxY (fst (scanPoints e (p # ps))) = Num (Max (insert (max ?y m) ?ys))"
    by (simp only: scanPoints_Cons)
  also have "Max (insert (max ?y m) ?ys) = Max (insert m (insert ?y ?ys))"
    using fin by (cases "?ys = {}") (simp_all add: max.commute max.left_commute max.assoc)
  finally show ?case by simp
qed

lemma scan_extremes_y:
  assumes "points \<noteq> []"
  shows "minY (fst (scanPoints initialExtremes points))
           = Num (Min ((\<lambda>q. yPosition (point_node q)) ` set points))"
    and "maxY (fst (scanPoints initialExtremes points))
           = Num (Max ((\<lambda>q. yPosition (point_node q)) ` set points))"
proof -
  obtain p ps where ps: "points = p # ps" using assms by (cases points) auto
  have a: "minY (fst (scanPoint initialExtremes p)) = Num (yPosition (point_node p))"
    "maxY (fst (scanPoint initialExtremes p)) = Num (yPosition (point_node p))"
    by (simp_all add: scanPoint_extremes initialExtremes_def)
  show "minY (fst (scanPoints initialExtremes points))
           = Num (Min ((\<lambda>q. yPosition (point_node q)) ` set points))"
    unfolding ps scanPoints_Cons using scanPoints_minY [OF a(1), of ps] by simp
  show "maxY (fst (scanPoints initialExtremes points))
           = Num (Max ((\<lambda>q. yPosition (point_node q)) ` set points))"
    unfolding ps scanPoints_Cons using scanPoints_maxY [OF a(2), of ps] by simp
qed

text \<open>
  On the y axis, when the greatest abstract coordinate of the points differs
  from the least, the scale factor is
  \<open>(plotSizeY - (minYSize + maxYSize) / 2) / (max - min)\<close>, with the sizes recorded by the
  scan, and the offset maps the least coordinate to \<open>minYSize / 2\<close>.
\<close>

theorem getLayoutModifiers_ay_formula:
  assumes "points \<noteq> []"
    and "e = fst (scanPoints initialExtremes points)"
    and "mn = Min ((\<lambda>q. yPosition (point_node q)) ` set points)"
    and "mx = Max ((\<lambda>q. yPosition (point_node q)) ` set points)"
    and "mx \<noteq> mn"
  shows "\<exists>m. fst (getLayoutModifiers chart points) = Some m \<and>
           lm_ay m = (plotSizeY chart - (minYSize e + maxYSize e) / 2) / (mx - mn) \<and>
           lm_ay m * mn + lm_by m = minYSize e / 2"
proof -
  from settled_nonempty [OF assms(1)] assms(2)
  obtain a b where x: "minX e = Num a" "maxX e = Num b"
    by (auto simp: settled_def isNum_iff)
  from scan_extremes_y [OF assms(1)] assms(2,3,4)
  have y: "minY e = Num mn" "maxY e = Num mx" by simp_all
  from x y assms(5) assms(2) show ?thesis
    by (simp add: getLayoutModifiers_def modifiersOf_def split_beta Let_def)
qed

theorem getLayoutModifiers_ay_formula_witness:
  "\<exists>m. fst (getLayoutModifiers (sampleChart False)
           [samplePoint ''A'' None 0 0 (rectMarker (Some 20) (Some 20) 10),
            samplePoint ''B'' (Some ''A'') 1 1 (rectMarker (Some 40) (Some 40) 10)]) = Some m \<and>
        lm_ay m = (100 - (20 + 40) / 2) / (1 - 0) \<and> lm_ay m * 0 + lm_by m = 20 / 2"
proof -
  let ?ps = "[samplePoint ''A'' None 0 0 (rectMarker (Some 20) (Some 20) 10),
              samplePoint ''B'' (Some ''A'') 1 1 (rectMarker (Some 40) (Some 40) 10)]"
  let ?e = "\<lparr>minX = Num 0, maxX = Num 1, minY = Num 0, maxY = Num 1,
      maxXSize = 40, minXSize = 20, maxYSize = 40, minYSize = 20 :: real\<rparr>"
  have h1: "?ps \<noteq> []" by simp
  have h2: "?e = fst (scanPoints initialExtremes ?ps)"
    by (simp add: scanPoint_def initialExtremes_def samplePoint_def rectMarker_def
        markerSizeX_def markerSizeY_def pick_def orZero_def Let_def)
  have h3: "(0::real) = Min ((\<lambda>q. yPosition (point_node q)) ` set ?ps)"
    and h4: "(1::real) = Max ((\<lambda>q. yPosition (point_node q)) ` set ?ps)"
    by (simp_all add: samplePoint_def)
  have h5: "(1::real) \<noteq> 0" by simp
  from getLayoutModifiers_ay_formula [OF h1 h2 h3 h4 h5, of "sampleChart False"]
  show ?thesis by (simp add: sampleChart_def)
qed

subsection \<open>The footprint of a marker\<close>

text \<open>
  \<open>nodeSizeX\<close> is \<open>2 \<times> radius\<close> for a circle and otherwise the explicit width
  when given, else \<open>2 \<times> radius\<close>; for a symbol other than the circle \<open>nodeSizeY\<close> is the
  explicit height when given, else \<open>2 \<times> radius\<close>.
\<close>

theorem marker_sizes:
  "markerSizeX m =
     (if marker_symbol m = Some ''circle'' then 2 * marker_radius m
      else case marker_width m of Some w \<Rightarrow> w | None \<Rightarrow> 2 * marker_radius m) \<and>
   (marker_symbol m \<noteq> Some ''circle'' \<longrightarrow>
      markerSizeY m = (case marker_height m of Some h \<Rightarrow> h | None \<Rightarrow> 2 * marker_radius m))"
  by (simp add: markerSizeX_def markerSizeY_def pick_def split: option.splits)

theorem marker_sizes_witness:
  "markerSizeX (rectMarker (Some 30) None 10) = 30 \<and>
   markerSizeY (rectMarker (Some 30) None 10) = 20 \<and>
   markerSizeX (circleMarker 10) = 20"
proof -
  have h: "marker_symbol (rectMarker (Some 30) None 10) \<noteq> Some ''circle''"
    by (simp add: rectMarker_def)
  from marker_sizes [of "rectMarker (Some 30) None 10"] marker_sizes [of "circleMarker 10"] h
  show ?thesis by (simp add: rectMarker_def circleMarker_def)
qed

subsection \<open>The straight link and the anchors\<close>

text \<open>
  For a link of type \<open>'straight'\<close> with both endpoints placed, the path is one
  \<open>MoveTo\<close> and one \<open>LineTo\<close> between the two connection points; the label-anchor box is at
  their midpoint, as high as the line is wide, and the tooltip anchor is that midpoint,
  mirrored in the plot area when the chart is inverted.
\<close>

theorem translateLink_straight_path:
  assumes "fromNode_shapeArgs link = Some fromArgs"
    and "toNode_shapeArgs link = Some toArgs"
    and "linkTypeOf linkOptions link = Some ''straight''"
    and "connectionPoints chart (crispOffset (series_link_lineWidth linkOptions)) fromArgs toArgs
         = (x1, y1, x2, y2)"
  shows "link_d (translateLink curvedPath chart linkOptions link) = Some [MoveTo x1 y1, LineTo x2 y2] \<and>
         link_dlBox (translateLink curvedPath chart linkOptions link)
           = Some \<lparr>dl_x = (x1 + x2) / 2, dl_y = (y1 + y2) / 2,
                   dl_height = series_link_lineWidth linkOptions, dl_width = 0\<rparr> \<and>
         link_tooltipPos (translateLink curvedPath chart linkOptions link)
           = Some (if inverted chart
                   then (plotSizeY chart - (y1 + y2) / 2, plotSizeX chart - (x1 + x2) / 2)
                   else ((x1 + x2) / 2, (y1 + y2) / 2))"
  using assms by (simp add: translateLink_def Let_def)

theorem translateLink_straight_path_witness:
  "link_d (translateLink (\<lambda>d r. d) (sampleChart False) (sampleLinkOptions 1 (Some ''straight'') 10)
     (sampleLink (Some (sampleBox 0 0 10 10)) (Some (sampleBox 95 40 10 10))))
   = Some [MoveTo (21 / 2) (11 / 2), LineTo (191 / 2) (91 / 2)]"
proof -
  let ?link = "sampleLink (Some (sampleBox 0 0 10 10)) (Some (sampleBox 95 40 10 10))"
  let ?opts = "sampleLinkOptions 1 (Some ''straight'') 10"
  have h1: "fromNode_shapeArgs ?link = Some (sampleBox 0 0 10 10)"
    and h2: "toNode_shapeArgs ?link = Some (sampleBox 95 40 10 10)"
    by (simp_all add: sampleLink_def)
  have h3: "linkTypeOf ?opts ?link = Some ''straight''"
    by (simp add: linkTypeOf_def sampleLink_def sampleLinkOptions_def pick2_def)
  have h4: "connectionPoints (sampleChart False) (crispOffset (series_link_lineWidth ?opts))
      (sampleBox 0 0 10 10) (sampleBox 95 40 10 10) = (21 / 2, 11 / 2, 191 / 2, 91 / 2)"
    by (simp add: sampleLinkOptions_def sample_crisp sample_connectionPoints)
  from translateLink_straight_path [OF h1 h2 h3 h4, of "\<lambda>d r. d"] show ?thesis by simp
qed

subsection \<open>The links of the points after getLinks\<close>

lemma step_links_point:
  "ls_links (fst (getLinksPoint lc s p)) = ls_links s @ linkRefs [snd (getLinksPoint lc s p)]"
  by (simp add: step_links step_point linkRefs_def)

lemma loop_links_are_point_links:
  "ls_links (fst (forEachData lc s ps)) = ls_links s @ linkRefs (snd (forEachData lc s ps))"
proof (induction ps arbitrary: s)
  case Nil
  then show ?case by (simp add: linkRefs_Nil)
next
  case (Cons p ps)
  let ?s1 = "fst (getLinksPoint lc s p)"
  have "linkRefs (snd (forEachData lc s (p # ps)))
      = linkRefs [snd (getLinksPoint lc s p)] @ linkRefs (snd (forEachData lc ?s1 ps))"
    by (simp add: loop_Cons linkRefs_def del: forEachData.simps)
  with Cons.IH [of ?s1] step_links_point [of lc s p] show ?case
    by (simp only: loop_Cons append_assoc)
qed

lemma indexed_distinct:
  assumes "indexed store links"
  shows "distinct links"
  unfolding distinct_conv_nth
proof (intro allI impI)
  fix i j assume "i < length links" "j < length links" "i \<noteq> j"
  with assms have "link_index (store ! (links ! i)) = Some i"
    "link_index (store ! (links ! j)) = Some j"
    by (simp_all add: indexed_iff)
  with \<open>i \<noteq> j\<close> show "links ! i \<noteq> links ! j" by auto
qed

text \<open>
  The list that \<open>getLinks\<close> returns holds exactly the links the points carry
  afterwards, in the order of the points; every such link is an object of the store, no
  two points share one, and the list is indexed: a pass leaves the series as the next
  pass expects it.
\<close>

theorem getLinks_keeps_ownership:
  assumes "refs_in_store (series_data series) store"
    and "own_links (series_data series)"
    and "getLinks linkClass series store = (links, series1, store1)"
  shows "links = linkRefs (series_data series1) \<and>
         refs_in_store (series_data series1) store1 \<and>
         own_links (series_data series1) \<and>
         indexed store1 links"
proof -
  let ?s0 = "\<lparr>ls_links = [], ls_seriesLinks = series_links series, ls_store = store\<rparr>"
  let ?res = "forEachData linkClass ?s0 (series_data series)"
  from assms(3) have links: "links = ls_links (fst ?res)"
    and data: "series_data series1 = snd ?res"
    and store1: "store1 = ls_store (fst ?res)"
    by (auto simp: getLinks_parts)
  have "links_inv ?s0 (series_data series)"
    using assms(1,2) by (simp add: links_inv_def indexed_def list_all_iff)
  then have inv: "links_inv (fst ?res) []"
    by (rule loop_inv)
  then have ix: "indexed store1 links"
    and rng: "list_all (\<lambda>r. r < length store1) links"
    by (simp_all add: links_inv_def links store1)
  from loop_links_are_point_links [of linkClass ?s0 "series_data series"]
  have eq: "links = linkRefs (series_data series1)"
    by (simp add: links data)
  from eq rng have "refs_in_store (series_data series1) store1"
    by (simp add: refs_in_store_def)
  moreover from eq indexed_distinct [OF ix] have "own_links (series_data series1)"
    by (simp add: own_links_def)
  ultimately show ?thesis using eq ix by simp
qed

theorem getLinks_keeps_ownership_witness:
  "fst (getLinks sampleLinkClass sampleSeries sampleStore)
     = linkRefs (series_data (fst (snd (getLinks sampleLinkClass sampleSeries sampleStore)))) \<and>
   own_links (series_data (fst (snd (getLinks sampleLinkClass sampleSeries sampleStore)))) \<and>
   fst (getLinks sampleLinkClass sampleSeries sampleStore) = [1, 2]"
proof -
  let ?g = "getLinks sampleLinkClass sampleSeries sampleStore"
  have g: "?g = (fst ?g, fst (snd ?g), snd (snd ?g))" by simp
  from getLinks_keeps_ownership [OF sample_wf(1,2) g] sample_getLinks(1)
  show ?thesis by simp
qed

subsection \<open>Collapsing and expanding again\<close>

lemma collapse_twice:
  "list_all (\<lambda>d. hidden (tn_point d) = h \<and> visible (tn_point d) = (\<not> h)) (descendants n) \<Longrightarrow>
   collapseTreeFromPoint (collapseTreeFromPoint n h') h = n"
  "list_all (\<lambda>d. hidden (tn_point d) = h \<and> visible (tn_point d) = (\<not> h)) (forestNodes cs) \<Longrightarrow>
   forEachChild (forEachChild cs h') h = cs"
proof (induction n h' and cs h' rule: collapseTreeFromPoint_forEachChild.induct)
  case (1 p cs hid)
  then show ?case by simp
next
  case (2 hid)
  then show ?case by simp
next
  case (3 cp ccs rest hid)
  let ?q = "update_visible (cp\<lparr>hidden := hid\<rparr>) (\<not> hid)"
  have hq: "hidden ?q = hid" by (simp add: update_visible_def)
  from "3.prems" have cp: "hidden cp = h" "visible cp = (\<not> h)"
    and d1: "list_all (\<lambda>d. hidden (tn_point d) = h \<and> visible (tn_point d) = (\<not> h))
               (descendants (TreeNode ?q ccs))"
    and d2: "list_all (\<lambda>d. hidden (tn_point d) = h \<and> visible (tn_point d) = (\<not> h))
               (forestNodes rest)"
    by simp_all
  have undo: "update_visible (?q\<lparr>hidden := h\<rparr>) (\<not> h) = cp"
    using cp by (simp add: update_visible_def)
  from "3.IH"(1) [OF refl d1] have a: "forEachChild (forEachChild ccs hid) h = ccs"
    by (simp add: hq)
  from "3.IH"(2) [OF refl d2] have b: "forEachChild (forEachChild rest hid) h = rest"
    by simp
  show ?case
    by (simp add: Let_def hq a b undo cp)
qed

text \<open>
  When the \<open>hidden\<close> flag of every descendant of a node agrees with the
  \<open>collapsed\<close> flag of the node (and \<open>visible\<close> is its negation), two clicks on the node
  restore the subtree exactly.
\<close>

theorem click_twice_restores:
  assumes "list_all (\<lambda>d. hidden (tn_point d) = collapsed (tn_point node) \<and>
                        visible (tn_point d) = (\<not> collapsed (tn_point node)))
             (descendants node)"
  shows "click (click node) = node"
proof (cases node)
  case (TreeNode p cs)
  with assms have d: "list_all (\<lambda>d. hidden (tn_point d) = collapsed p \<and>
      visible (tn_point d) = (\<not> collapsed p)) (forestNodes cs)"
    by simp
  have "click (TreeNode p cs)
      = TreeNode (p\<lparr>collapsed := \<not> collapsed p\<rparr>) (forEachChild cs (\<not> collapsed p))"
    by (simp add: click_def)
  then have "click (click (TreeNode p cs))
      = TreeNode p (forEachChild (forEachChild cs (\<not> collapsed p)) (collapsed p))"
    by (simp add: click_def)
  with collapse_twice(2) [OF d] TreeNode show ?thesis by simp
qed

theorem click_twice_restores_witness:
  "click (click sampleTree) = sampleTree"
proof -
  have "list_all (\<lambda>d. hidden (tn_point d) = collapsed (tn_point sampleTree) \<and>
                        visible (tn_point d) = (\<not> collapsed (tn_point sampleTree)))
             (descendants sampleTree)"
    by (simp add: sampleTree_def samplePoint_def)
  then show ?thesis by (rule click_twice_restores)
qed

end
